theory Spec2Isabelle
  imports Main "HOL-Library.List_Lexorder" "HOL-Library.Char_ord" "HOL-Library.AList"
begin

section \<open>Python strings\<close>

text \<open>
  A Python \<open>str\<close> is modelled as a \<open>string\<close>, one \<open>char\<close> per code point; the
  model therefore covers the code points below 256. Comparison of strings is
  Python's: lexicographic on code points (\<open>List_Lexorder\<close> over \<open>Char_ord\<close>).
\<close>

definition startswith :: "string \<Rightarrow> string \<Rightarrow> bool" where
  "startswith s p = (take (length p) s = p)"

text \<open>\<open>sub in s\<close>\<close>

fun py_in :: "string \<Rightarrow> string \<Rightarrow> bool" where
  "py_in sub [] = (sub = [])"
| "py_in sub (c # cs) = (startswith (c # cs) sub \<or> py_in sub cs)"

text \<open>\<open>s.replace(old, new)\<close> for a non-empty \<open>old\<close>: the occurrences are found
  from the left and do not overlap.\<close>

fun py_replace :: "string \<Rightarrow> string \<Rightarrow> string \<Rightarrow> string" where
  "py_replace old new [] = []"
| "py_replace old new (c # cs) =
     (if old \<noteq> [] \<and> startswith (c # cs) old
      then new @ py_replace old new (drop (length old - 1) cs)
      else c # py_replace old new cs)"

text \<open>\<open>s.split(sep)\<close> for a non-empty \<open>sep\<close>; \<open>acc\<close> holds the current piece,
  reversed.\<close>

fun split_from :: "string \<Rightarrow> string \<Rightarrow> string \<Rightarrow> string list" where
  "split_from sep acc [] = [rev acc]"
| "split_from sep acc (c # cs) =
     (if sep \<noteq> [] \<and> startswith (c # cs) sep
      then rev acc # split_from sep [] (drop (length sep - 1) cs)
      else split_from sep (c # acc) cs)"

definition py_split :: "string \<Rightarrow> string \<Rightarrow> string list" where
  "py_split s sep = split_from sep [] s"

text \<open>\<open>sep.join(parts)\<close>\<close>

fun py_join :: "string \<Rightarrow> string list \<Rightarrow> string" where
  "py_join sep [] = []"
| "py_join sep [p] = p"
| "py_join sep (p # q # ps) = p @ sep @ py_join sep (q # ps)"

definition CR :: char where "CR = CHR 0x0D"
definition LF :: char where "LF = CHR 0x0A"
definition TAB :: char where "TAB = CHR 0x09"
definition BACKSLASH :: char where "BACKSLASH = CHR 0x5C"
definition QUOTE :: char where "QUOTE = CHR 0x27"
definition DQUOTE :: char where "DQUOTE = CHR 0x22"

section \<open>\<open>datetime\<close>\<close>

text \<open>
  A \<open>datetime\<close> carries its calendar fields, as Python's does. \<open>tzinfo\<close> is
  \<open>None\<close> for a naive value and \<open>Some off\<close> for an aware one, \<open>off\<close> being a fixed
  UTC offset in minutes.
\<close>

record datetime =
  year :: nat
  month :: nat
  day :: nat
  hour :: nat
  minute :: nat
  second :: nat
  microsecond :: nat
  tzinfo :: "int option"

definition is_leap :: "nat \<Rightarrow> bool" where
  "is_leap y = (y mod 4 = 0 \<and> (y mod 100 \<noteq> 0 \<or> y mod 400 = 0))"

definition days_in_month :: "nat \<Rightarrow> nat \<Rightarrow> nat" where
  "days_in_month y m =
     (if m = 2 then (if is_leap y then 29 else 28)
      else if m = 4 \<or> m = 6 \<or> m = 9 \<or> m = 11 then 30 else 31)"

definition valid_date :: "nat \<Rightarrow> nat \<Rightarrow> nat \<Rightarrow> bool" where
  "valid_date y m d =
     (1 \<le> y \<and> y \<le> 9999 \<and> 1 \<le> m \<and> m \<le> 12 \<and> 1 \<le> d \<and> d \<le> days_in_month y m)"

definition valid_datetime :: "datetime \<Rightarrow> bool" where
  "valid_datetime t =
     (valid_date (year t) (month t) (day t) \<and> hour t < 24 \<and> minute t < 60 \<and>
      second t < 60 \<and> microsecond t < 1000000)"

type_synonym ymd = "nat \<times> nat \<times> nat"

text \<open>The day after and the day before; \<open>None\<close> outside the years 1 to 9999, where
  Python raises \<open>OverflowError\<close>.\<close>

definition next_day :: "ymd \<Rightarrow> ymd option" where
  "next_day = (\<lambda>(y, m, d).
     if d < days_in_month y m then Some (y, m, d + 1)
     else if m < 12 then Some (y, m + 1, 1)
     else if y < 9999 then Some (y + 1, 1, 1) else None)"

definition prev_day :: "ymd \<Rightarrow> ymd option" where
  "prev_day = (\<lambda>(y, m, d).
     if 1 < d then Some (y, m, d - 1)
     else if 1 < m then Some (y, m - 1, days_in_month y (m - 1))
     else if 1 < y then Some (y - 1, 12, 31) else None)"

fun iterate_day :: "(ymd \<Rightarrow> ymd option) \<Rightarrow> nat \<Rightarrow> ymd \<Rightarrow> ymd option" where
  "iterate_day f 0 x = Some x"
| "iterate_day f (Suc n) x = (case f x of None \<Rightarrow> None | Some x' \<Rightarrow> iterate_day f n x')"

definition shift_days :: "int \<Rightarrow> ymd \<Rightarrow> ymd option" where
  "shift_days k x = (if 0 \<le> k then iterate_day next_day (nat k) x
                     else iterate_day prev_day (nat (- k)) x)"

text \<open>\<open>t + timedelta(minutes=n)\<close>, for any integer \<open>n\<close>; \<open>None\<close> is
  \<open>OverflowError\<close>. Seconds, microseconds and \<open>tzinfo\<close> are kept.\<close>

definition plus_minutes :: "datetime \<Rightarrow> int \<Rightarrow> datetime option" where
  "plus_minutes t n =
     (let m = int (hour t * 60 + minute t) + n
      in case shift_days (m div 1440) (year t, month t, day t) of
           None \<Rightarrow> None
         | Some (y, mo, d) \<Rightarrow>
             Some (t\<lparr>year := y, month := mo, day := d,
                     hour := nat (m mod 1440) div 60, minute := nat (m mod 1440) mod 60\<rparr>))"

text \<open>Comparison of two naive values, or of two aware values with the same
  \<open>tzinfo\<close>: Python compares the fields, most significant first.\<close>

definition dt_key :: "datetime \<Rightarrow> nat list" where
  "dt_key t = [year t, month t, day t, hour t, minute t, second t, microsecond t]"

definition dt_less :: "datetime \<Rightarrow> datetime \<Rightarrow> bool" where
  "dt_less a b = (dt_key a < dt_key b)"

text \<open>Decimal rendering in a fixed width, padded with zeros.\<close>

definition digit_char :: "nat \<Rightarrow> char" where
  "digit_char d = ''0123456789'' ! d"

fun zpad :: "nat \<Rightarrow> nat \<Rightarrow> string" where
  "zpad 0 n = []"
| "zpad (Suc w) n = zpad w (n div 10) @ [digit_char (n mod 10)]"

definition utcoffset_str :: "int \<Rightarrow> string" where
  "utcoffset_str off =
     (if off < 0 then ''-'' else ''+'') @ zpad 2 (nat \<bar>off\<bar> div 60) @ '':'' @
     zpad 2 (nat \<bar>off\<bar> mod 60)"

definition isoformat :: "datetime \<Rightarrow> string" where
  "isoformat t =
     zpad 4 (year t) @ ''-'' @ zpad 2 (month t) @ ''-'' @ zpad 2 (day t) @ ''T'' @
     zpad 2 (hour t) @ '':'' @ zpad 2 (minute t) @ '':'' @ zpad 2 (second t) @
     (if microsecond t = 0 then [] else ''.'' @ zpad 6 (microsecond t)) @
     (case tzinfo t of None \<Rightarrow> [] | Some off \<Rightarrow> utcoffset_str off)"

text \<open>\<open>t.strftime('%H:%M')\<close>\<close>

definition strftime_HM :: "datetime \<Rightarrow> string" where
  "strftime_HM t = zpad 2 (hour t) @ '':'' @ zpad 2 (minute t)"

section \<open>The persisted ledger\<close>

text \<open>
  What \<open>json.load\<close> returns. An object is the list of its items in insertion
  order, as a Python \<open>dict\<close> keeps them; \<open>AList.update\<close> is then the item
  assignment \<open>d[k] = v\<close>.
\<close>

datatype json =
    JNull
  | JBool bool
  | JNum int
  | JStr string
  | JArr "json list"
  | JObj "(string \<times> json) list"

text \<open>The state file: absent, present but rejected by \<open>open\<close> or \<open>json.load\<close>,
  or holding a document.\<close>

datatype stored = Absent | Garbage | Json json

type_synonym ledger = "(string \<times> json) list"

record request =
  event_id :: string
  title :: string
  body :: string
  remind_date :: datetime

text \<open>
  Everything a run can change: the number of clock readings taken so far, the
  state file, the log (each line with the clock reading of its timestamp), the
  number of "ensure the list exists" calls, and the calls made to the Reminders
  application with what each returned.
\<close>

record world =
  ticks :: nat
  state_file :: stored
  log_lines :: "(datetime \<times> string) list"
  ensure_calls :: nat
  sink_log :: "(request \<times> string) list"

text \<open>
  What a run only reads: the local wall clock (its successive readings), the
  local UTC offset in minutes, and the Reminders application, whose answer (the
  stripped standard output of the script) may depend on all earlier calls.
\<close>

record env =
  local_clock :: "nat \<Rightarrow> datetime"
  local_utcoffset :: int
  osascript_reminder :: "(request \<times> string) list \<Rightarrow> request \<Rightarrow> string"

datatype py_error = KeyError | OverflowError | SystemExit | FetchError string

text \<open>\<open>datetime.now()\<close>\<close>

definition datetime_now :: "env \<Rightarrow> world \<Rightarrow> datetime \<times> world" where
  "datetime_now e w = (local_clock e (ticks w), w\<lparr>ticks := Suc (ticks w)\<rparr>)"

text \<open>\<open>datetime.now(tz)\<close> for the fixed offset \<open>tz\<close>: the same instant, shown
  in that zone.\<close>

definition datetime_now_tz :: "env \<Rightarrow> int \<Rightarrow> world \<Rightarrow> datetime option \<times> world" where
  "datetime_now_tz e tz w =
     (case plus_minutes (local_clock e (ticks w)) (tz - local_utcoffset e) of
        None \<Rightarrow> None
      | Some t \<Rightarrow> Some (t\<lparr>tzinfo := Some tz\<rparr>),
      w\<lparr>ticks := Suc (ticks w)\<rparr>)"

definition log :: "env \<Rightarrow> string \<Rightarrow> world \<Rightarrow> world" where
  "log e message w =
     (let (t, w') = datetime_now e w in w'\<lparr>log_lines := log_lines w' @ [(t, message)]\<rparr>)"

text \<open>\<open>v.get('synced_at', '') > cutoff\<close>; \<open>None\<close> when it raises (a value that
  is no object, a \<open>synced_at\<close> that is no string).\<close>

definition synced_at_newer :: "string \<Rightarrow> json \<Rightarrow> bool option" where
  "synced_at_newer cutoff v =
     (case v of
        JObj members \<Rightarrow>
          (case map_of members ''synced_at'' of
             None \<Rightarrow> Some ([] > cutoff)
           | Some (JStr s) \<Rightarrow> Some (s > cutoff)
           | Some _ \<Rightarrow> None)
      | _ \<Rightarrow> None)"

text \<open>The dictionary comprehension of \<open>load_synced_events\<close>.\<close>

fun entries_newer :: "string \<Rightarrow> ledger \<Rightarrow> ledger option" where
  "entries_newer cutoff [] = Some []"
| "entries_newer cutoff ((k, v) # rest) =
     (case synced_at_newer cutoff v of
        None \<Rightarrow> None
      | Some keep \<Rightarrow>
          (case entries_newer cutoff rest of
             None \<Rightarrow> None
           | Some rest' \<Rightarrow> Some (if keep then (k, v) # rest' else rest')))"

definition load_synced_events :: "env \<Rightarrow> world \<Rightarrow> ledger \<times> world" where
  "load_synced_events e w =
     (case state_file w of
        Absent \<Rightarrow> ([], w)
      | Garbage \<Rightarrow> ([], w)
      | Json data \<Rightarrow>
          (let (t, w') = datetime_now e w
           in case plus_minutes t (- (2 * 24 * 60)) of
                None \<Rightarrow> ([], w')
              | Some c \<Rightarrow>
                  (case data of
                     JObj items \<Rightarrow>
                       (case entries_newer (isoformat c) items of
                          None \<Rightarrow> ([], w')
                        | Some kept \<Rightarrow> (kept, w'))
                   | _ \<Rightarrow> ([], w'))))"

definition save_synced_events :: "ledger \<Rightarrow> world \<Rightarrow> world" where
  "save_synced_events synced w = w\<lparr>state_file := Json (JObj synced)\<rparr>"

section \<open>The Reminders application\<close>

definition ensure_reminder_list_exists :: "world \<Rightarrow> world" where
  "ensure_reminder_list_exists w = w\<lparr>ensure_calls := Suc (ensure_calls w)\<rparr>"

definition create_macos_reminder :: "env \<Rightarrow> request \<Rightarrow> world \<Rightarrow> string \<times> world" where
  "create_macos_reminder e r w =
     (let result = osascript_reminder e (sink_log w) r
      in (result, w\<lparr>sink_log := sink_log w @ [(r, result)]\<rparr>))"

definition REMINDER_MINUTES_BEFORE :: int where "REMINDER_MINUTES_BEFORE = 3"
definition SYNC_HOURS_AHEAD :: int where "SYNC_HOURS_AHEAD = 24"

text \<open>The value stored under an event id.\<close>

definition ledger_entry :: "string \<Rightarrow> datetime \<Rightarrow> datetime \<Rightarrow> json" where
  "ledger_entry summary start_time now =
     JObj [(''summary'', JStr summary),
           (''start_time'', JStr (isoformat start_time)),
           (''synced_at'', JStr (isoformat now))]"

section \<open>Regular expressions\<close>

text \<open>
  The fragment of \<open>re\<close> the patterns of the source use: a literal, and a greedy
  \<open>[^...]*\<close> or \<open>[^...]+\<close> over the complement of a class. \<open>rx_match\<close> is a match
  anchored at the start; it returns what is left of the text. The longest run is
  tried first and given back one character at a time, as the backtracking
  matcher does.
\<close>

datatype rx = Lit string | StarNot "char \<Rightarrow> bool" | PlusNot "char \<Rightarrow> bool"

text \<open>\<open>\s\<close> on code points below 256.\<close>

definition is_space :: "char \<Rightarrow> bool" where
  "is_space c = (let n = (of_char c :: nat)
                 in (9 \<le> n \<and> n \<le> 13) \<or> (28 \<le> n \<and> n \<le> 32) \<or> n = 133 \<or> n = 160)"

function rx_match :: "rx list \<Rightarrow> string \<Rightarrow> string option" where
  "rx_match [] s = Some s"
| "rx_match (Lit l # r) s =
     (if startswith s l then rx_match r (drop (length l) s) else None)"
| "rx_match (StarNot P # r) [] = rx_match r []"
| "rx_match (StarNot P # r) (c # cs) =
     (if \<not> P c
      then (case rx_match (StarNot P # r) cs of
              Some t \<Rightarrow> Some t
            | None \<Rightarrow> rx_match r (c # cs))
      else rx_match r (c # cs))"
| "rx_match (PlusNot P # r) [] = None"
| "rx_match (PlusNot P # r) (c # cs) =
     (if \<not> P c then rx_match (StarNot P # r) cs else None)"
  by pat_completeness auto
termination
  by (relation "measure (\<lambda>(p, s). length p + length s)") auto

text \<open>\<open>re.search(p, s)\<close>, giving \<open>match.group(0)\<close>.\<close>

fun rx_search :: "rx list \<Rightarrow> string \<Rightarrow> string option" where
  "rx_search p [] =
     (case rx_match p [] of Some rest \<Rightarrow> Some [] | None \<Rightarrow> None)"
| "rx_search p (c # cs) =
     (case rx_match p (c # cs) of
        Some rest \<Rightarrow> Some (take (length (c # cs) - length rest) (c # cs))
      | None \<Rightarrow> rx_search p cs)"

text \<open>\<open>re.findall(p, s)\<close> for a pattern without groups: the matches from the
  left, each search starting where the previous match ended (one character
  further after an empty match).\<close>

function rx_findall :: "rx list \<Rightarrow> string \<Rightarrow> string list" where
  "rx_findall p [] =
     (case rx_match p [] of Some rest \<Rightarrow> [[]] | None \<Rightarrow> [])"
| "rx_findall p (c # cs) =
     (case rx_match p (c # cs) of
        None \<Rightarrow> rx_findall p cs
      | Some rest \<Rightarrow>
          (let n = length (c # cs) - length rest
           in if n = 0 then [] # rx_findall p cs
              else take n (c # cs) # rx_findall p (drop (n - 1) cs)))"
  by pat_completeness auto
termination
  by (relation "measure (\<lambda>(p, s). length s)") auto

section \<open>The authenticated-API variant (\<open>calendar_sync.py\<close>)\<close>

text \<open>
  An event of the API response, with the keys the code reads. A key that may be
  absent is an \<open>option\<close>; the values have the types the API documents.
\<close>

record entry_point =
  entryPointType :: "string option"
  uri :: "string option"

record start_obj =
  date :: "string option"
  dateTime :: "string option"

record api_event =
  e_id :: "string option"
  e_start :: "start_obj option"
  e_status :: "string option"
  e_summary :: "string option"
  e_hangoutLink :: "string option"
  e_conferenceData :: "entry_point list option option"
  e_description :: "string option"
  e_organizer :: "string option option"

definition link_stop :: "char \<Rightarrow> bool" where
  "link_stop c = (is_space c \<or> c = CHR ''<'' \<or> c = DQUOTE \<or> c = QUOTE)"

definition zoom_pattern :: "rx list" where
  "zoom_pattern = [Lit ''https://'', StarNot is_space, Lit ''zoom.us/'', PlusNot link_stop]"

definition meet_pattern :: "rx list" where
  "meet_pattern = [Lit ''https://meet.google.com/'', PlusNot link_stop]"

definition teams_pattern :: "rx list" where
  "teams_pattern = [Lit ''https://teams.microsoft.com/'', PlusNot link_stop]"

definition patterns :: "rx list list" where
  "patterns = [zoom_pattern, meet_pattern, teams_pattern]"

fun first_match :: "rx list list \<Rightarrow> string \<Rightarrow> string option" where
  "first_match [] description = None"
| "first_match (pattern # rest) description =
     (case rx_search pattern description of
        Some m \<Rightarrow> Some m
      | None \<Rightarrow> first_match rest description)"

definition scan_description :: "api_event \<Rightarrow> string option" where
  "scan_description event =
     first_match patterns (case e_description event of None \<Rightarrow> [] | Some d \<Rightarrow> d)"

definition extract_meeting_link :: "api_event \<Rightarrow> string option" where
  "extract_meeting_link event =
     (case e_hangoutLink event of
        Some link \<Rightarrow> Some link
      | None \<Rightarrow>
          (case e_conferenceData event of
             None \<Rightarrow> scan_description event
           | Some cd \<Rightarrow>
               (case find (\<lambda>ep. entryPointType ep = Some ''video'')
                          (case cd of None \<Rightarrow> [] | Some eps \<Rightarrow> eps) of
                  Some ep \<Rightarrow> uri ep
                | None \<Rightarrow> scan_description event)))"

text \<open>The calendar emoji that opens a title (U+1F4C5) and the emoji of the log
  messages lie beyond code point 255; they are written by name.\<close>

definition CALENDAR_EMOJI :: string where "CALENDAR_EMOJI = ''(U+1F4C5)''"

definition make_title :: "string \<Rightarrow> datetime \<Rightarrow> string" where
  "make_title summary start_time =
     CALENDAR_EMOJI @ '' '' @ summary @ '' - '' @ strftime_HM start_time"

definition OWNER_EMAIL :: string where "OWNER_EMAIL = ''boriss@wix.com''"

text \<open>The parts of the reminder body, lines 239 to 247.\<close>

text \<open>\<open>event.get('organizer', {}).get('email', '')\<close>\<close>

definition organizer_email :: "api_event \<Rightarrow> string" where
  "organizer_email event =
     (case e_organizer event of
        None \<Rightarrow> []
      | Some org \<Rightarrow> (case org of None \<Rightarrow> [] | Some email \<Rightarrow> email))"

definition body_parts :: "api_event \<Rightarrow> datetime \<Rightarrow> string list" where
  "body_parts event start_time =
     (let meeting_link = extract_meeting_link event;
          organizer = organizer_email event
      in [''Starts at '' @ strftime_HM start_time] @
         (case meeting_link of
            None \<Rightarrow> []
          | Some link \<Rightarrow> if link \<noteq> [] then [''Join: '' @ link] else []) @
         (if organizer \<noteq> [] \<and> organizer \<noteq> OWNER_EMAIL
          then [''Organizer: '' @ organizer] else []))"

definition summary_of :: "api_event \<Rightarrow> string" where
  "summary_of event = (case e_summary event of None \<Rightarrow> ''Untitled Meeting'' | Some s \<Rightarrow> s)"

definition api_request :: "api_event \<Rightarrow> string \<Rightarrow> datetime \<Rightarrow> datetime \<Rightarrow> request" where
  "api_request event eid start_time remind_time =
     \<lparr>event_id = eid, title = make_title (summary_of event) start_time,
      body = py_join [LF] (body_parts event start_time), remind_date = remind_time\<rparr>"

text \<open>The state of the loop: the ledger in memory, the counter of new
  reminders, the world.\<close>

type_synonym loop_state = "ledger \<times> nat \<times> world"

text \<open>Lines 254 to 268: what the answer of the Reminders application leads to.\<close>

definition record_result :: "env \<Rightarrow> string \<Rightarrow> string \<Rightarrow> string \<Rightarrow> datetime \<Rightarrow> loop_state \<Rightarrow> loop_state" where
  "record_result e result eid summary start_time = (\<lambda>(synced, new_reminders, w).
     if result = ''created'' then
       (let w1 = log e (''(ok) Created reminder: '' @ summary @ '' at '' @ strftime_HM start_time) w;
            (now, w2) = datetime_now e w1
        in (AList.update eid (ledger_entry summary start_time now) synced,
            new_reminders + 1, w2))
     else if result = ''exists'' then
       (let w1 = log e (''(skip) Reminder already exists: '' @ summary) w;
            (now, w2) = datetime_now e w1
        in (AList.update eid (ledger_entry summary start_time now) synced,
            new_reminders, w2))
     else (synced, new_reminders, w))"

text \<open>Lines 202 to 219: the start time of an event that is timed, not cancelled
  and parseable; \<open>None\<close> is \<open>continue\<close>. \<open>parse\<close> is \<open>dateutil\<close>'s parser,
  \<open>None\<close> where it raises.\<close>

definition api_start_time :: "(string \<Rightarrow> datetime option) \<Rightarrow> api_event \<Rightarrow> datetime option" where
  "api_start_time parse event =
     (let has_date = (case e_start event of None \<Rightarrow> False | Some s \<Rightarrow> date s \<noteq> None);
          has_dateTime = (case e_start event of None \<Rightarrow> False | Some s \<Rightarrow> dateTime s \<noteq> None);
          start_time_str = (case e_start event of
                              None \<Rightarrow> []
                            | Some s \<Rightarrow> (case dateTime s of None \<Rightarrow> [] | Some x \<Rightarrow> x))
      in if has_date \<and> \<not> has_dateTime then None
         else if e_status event = Some ''cancelled'' then None
         else if start_time_str = [] then None
         else parse start_time_str)"

text \<open>Line 225: the clock read in the zone of the start time, or as local time
  for a naive start time.\<close>

definition now_for :: "env \<Rightarrow> datetime \<Rightarrow> world \<Rightarrow> datetime option \<times> world" where
  "now_for e start_time w =
     (case tzinfo start_time of
        Some tz \<Rightarrow> datetime_now_tz e tz w
      | None \<Rightarrow> (let (t, w') = datetime_now e w in (Some t, w')))"

text \<open>One turn of the loop, lines 199 to 268. The first component is the
  exception that leaves the loop, if any.\<close>

definition api_step ::
  "env \<Rightarrow> (string \<Rightarrow> datetime option) \<Rightarrow> api_event \<Rightarrow> loop_state \<Rightarrow> py_error option \<times> loop_state" where
  "api_step e parse event = (\<lambda>(synced, new_reminders, w).
     case e_id event of
       None \<Rightarrow> (Some KeyError, synced, new_reminders, w)
     | Some eid \<Rightarrow>
         (case api_start_time parse event of
            None \<Rightarrow> (None, synced, new_reminders, w)
          | Some start_time \<Rightarrow>
              (case plus_minutes start_time (- REMINDER_MINUTES_BEFORE) of
                 None \<Rightarrow> (Some OverflowError, synced, new_reminders, w)
               | Some remind_time \<Rightarrow>
                   (let (now_opt, w1) = now_for e start_time w
                    in case now_opt of
                         None \<Rightarrow> (Some OverflowError, synced, new_reminders, w1)
                       | Some now \<Rightarrow>
                           if dt_less remind_time now then (None, synced, new_reminders, w1)
                           else if eid \<in> fst ` set synced then (None, synced, new_reminders, w1)
                           else
                             (let (result, w2) =
                                    create_macos_reminder e
                                      (api_request event eid start_time remind_time) w1
                              in (None, record_result e result eid (summary_of event) start_time
                                          (synced, new_reminders, w2)))))))"

fun api_loop ::
  "env \<Rightarrow> (string \<Rightarrow> datetime option) \<Rightarrow> api_event list \<Rightarrow> loop_state \<Rightarrow> py_error option \<times> loop_state" where
  "api_loop e parse [] st = (None, st)"
| "api_loop e parse (event # events) st =
     (case api_step e parse event st of
        (Some err, st') \<Rightarrow> (Some err, st')
      | (None, st') \<Rightarrow> api_loop e parse events st')"

text \<open>
  The calendar service as a run meets it: what \<open>get_calendar_service\<close> does
  (returns, raises an exception with a message, or logs the missing credentials
  and exits), what the \<open>events().list(...).execute()\<close> of \<open>get_upcoming_events\<close>
  does (raises with a message, or returns the items), and \<open>dateutil\<close>'s parser.
\<close>

datatype connect = Connected | ConnectRaises string | CredentialsMissing

record api_source =
  connect_result :: connect
  list_result :: "string + api_event list"
  dateutil_parse :: "string \<Rightarrow> datetime option"

text \<open>\<open>get_upcoming_events\<close>: one reading of the clock (\<open>datetime.utcnow()\<close>,
  for the bounds of the query), then the query.\<close>

definition get_upcoming_events :: "api_source \<Rightarrow> world \<Rightarrow> (string + api_event list) \<times> world" where
  "get_upcoming_events src w = (list_result src, w\<lparr>ticks := Suc (ticks w)\<rparr>)"

text \<open>\<open>str(n)\<close>\<close>

fun str_nat :: "nat \<Rightarrow> string" where
  "str_nat n = (if n < 10 then [digit_char n] else str_nat (n div 10) @ [digit_char (n mod 10)])"

declare str_nat.simps [simp del]

text \<open>\<open>sync_calendar\<close>. The result is the exception that ends the run, if any,
  and the world the run leaves.\<close>

definition sync_calendar :: "env \<Rightarrow> api_source \<Rightarrow> world \<Rightarrow> py_error option \<times> world" where
  "sync_calendar e src w =
     (let w1 = log e ''(sync) Starting calendar sync...'' w
      in case connect_result src of
           ConnectRaises msg \<Rightarrow>
             (None, log e (''(x) Failed to connect to Google Calendar: '' @ msg) w1)
         | CredentialsMissing \<Rightarrow>
             (Some SystemExit,
              log e ''(x) credentials.json not found! Please set up Google Cloud OAuth.'' w1)
         | Connected \<Rightarrow>
             (let w2 = ensure_reminder_list_exists w1;
                  (synced_events, w3) = load_synced_events e w2;
                  (listed, w4) = get_upcoming_events src w3
              in case listed of
                   Inl msg \<Rightarrow> (Some (FetchError msg), w4)
                 | Inr events \<Rightarrow>
                     (case api_loop e (dateutil_parse src) events (synced_events, 0, w4) of
                        (Some err, synced, new_reminders, w5) \<Rightarrow> (Some err, w5)
                      | (None, synced, new_reminders, w5) \<Rightarrow>
                          (let w6 = save_synced_events synced w5
                           in (None,
                               log e (''(ok) Sync complete. Created '' @ str_nat new_reminders @
                                      '' new reminders.'') w6)))))"

section \<open>The feed variant (\<open>calendar_sync_ical.py\<close>)\<close>

subsection \<open>\<open>datetime.strptime(s, '%Y%m%dT%H%M%S')\<close>\<close>

text \<open>
  \<open>strptime\<close> turns the format into a regular expression, one group of
  alternatives per directive, matches it at the start of the text ignoring case,
  and rejects a match that leaves text over. A directive is modelled by the list
  of its possible parses (value, rest of the text), in the order the matcher
  tries the alternatives; the first complete parse is the match.
\<close>

definition in_range :: "char \<Rightarrow> char \<Rightarrow> char \<Rightarrow> bool" where
  "in_range lo hi c = (lo \<le> c \<and> c \<le> hi)"

definition is_digit :: "char \<Rightarrow> bool" where
  "is_digit c = in_range CHR ''0'' CHR ''9'' c"

definition digit_val :: "char \<Rightarrow> nat" where
  "digit_val c = of_char c - 48"

type_synonym 'a parses = "('a \<times> string) list"

definition two :: "(char \<Rightarrow> bool) \<Rightarrow> (char \<Rightarrow> bool) \<Rightarrow> string \<Rightarrow> nat parses" where
  "two P Q s = (case s of
      a # b # r \<Rightarrow> if P a \<and> Q b then [(10 * digit_val a + digit_val b, r)] else []
    | _ \<Rightarrow> [])"

definition one :: "(char \<Rightarrow> bool) \<Rightarrow> string \<Rightarrow> nat parses" where
  "one P s = (case s of a # r \<Rightarrow> if P a then [(digit_val a, r)] else [] | _ \<Rightarrow> [])"

text \<open>\<open>%Y\<close>: \<open>\d\d\d\d\<close>\<close>

definition directive_Y :: "string \<Rightarrow> nat parses" where
  "directive_Y s = (case s of
      a # b # c # d # r \<Rightarrow>
        if is_digit a \<and> is_digit b \<and> is_digit c \<and> is_digit d
        then [(1000 * digit_val a + 100 * digit_val b + 10 * digit_val c + digit_val d, r)]
        else []
    | _ \<Rightarrow> [])"

text \<open>\<open>%m\<close>: \<open>1[0-2]|0[1-9]|[1-9]\<close>\<close>

definition directive_m :: "string \<Rightarrow> nat parses" where
  "directive_m s =
     two (\<lambda>c. c = CHR ''1'') (in_range CHR ''0'' CHR ''2'') s @
     two (\<lambda>c. c = CHR ''0'') (in_range CHR ''1'' CHR ''9'') s @
     one (in_range CHR ''1'' CHR ''9'') s"

text \<open>\<open>%d\<close>: \<open>3[0-1]|[1-2]\d|0[1-9]|[1-9]| [1-9]\<close>\<close>

definition directive_d :: "string \<Rightarrow> nat parses" where
  "directive_d s =
     two (\<lambda>c. c = CHR ''3'') (in_range CHR ''0'' CHR ''1'') s @
     two (in_range CHR ''1'' CHR ''2'') is_digit s @
     two (\<lambda>c. c = CHR ''0'') (in_range CHR ''1'' CHR ''9'') s @
     one (in_range CHR ''1'' CHR ''9'') s @
     (case s of
        a # b # r \<Rightarrow> if a = CHR '' '' \<and> in_range CHR ''1'' CHR ''9'' b
                     then [(digit_val b, r)] else []
      | _ \<Rightarrow> [])"

text \<open>\<open>%H\<close>: \<open>2[0-3]|[0-1]\d|\d\<close>\<close>

definition directive_H :: "string \<Rightarrow> nat parses" where
  "directive_H s =
     two (\<lambda>c. c = CHR ''2'') (in_range CHR ''0'' CHR ''3'') s @
     two (in_range CHR ''0'' CHR ''1'') is_digit s @
     one is_digit s"

text \<open>\<open>%M\<close>: \<open>[0-5]\d|\d\<close>\<close>

definition directive_M :: "string \<Rightarrow> nat parses" where
  "directive_M s = two (in_range CHR ''0'' CHR ''5'') is_digit s @ one is_digit s"

text \<open>\<open>%S\<close>: \<open>6[0-1]|[0-5]\d|\d\<close>\<close>

definition directive_S :: "string \<Rightarrow> nat parses" where
  "directive_S s =
     two (\<lambda>c. c = CHR ''6'') (in_range CHR ''0'' CHR ''1'') s @
     two (in_range CHR ''0'' CHR ''5'') is_digit s @
     one is_digit s"

text \<open>The literal \<open>T\<close> of the format, matched ignoring case.\<close>

definition literal_T :: "string \<Rightarrow> unit parses" where
  "literal_T s = (case s of
      c # r \<Rightarrow> if c = CHR ''T'' \<or> c = CHR ''t'' then [((), r)] else []
    | _ \<Rightarrow> [])"

definition strptime_parses :: "string \<Rightarrow> (nat \<times> nat \<times> nat \<times> nat \<times> nat \<times> nat) parses" where
  "strptime_parses s =
     [((y, mo, d, h, mi, sec), r7).
        (y, r1) \<leftarrow> directive_Y s, (mo, r2) \<leftarrow> directive_m r1, (d, r3) \<leftarrow> directive_d r2,
        (u, r4) \<leftarrow> literal_T r3, (h, r5) \<leftarrow> directive_H r4, (mi, r6) \<leftarrow> directive_M r5,
        (sec, r7) \<leftarrow> directive_S r6]"

text \<open>\<open>None\<close> is \<open>ValueError\<close>: no match, text left over, or fields that are no
  date and time.\<close>

definition strptime :: "string \<Rightarrow> datetime option" where
  "strptime s =
     (case strptime_parses s of
        [] \<Rightarrow> None
      | ((y, mo, d, h, mi, sec), rest) # others \<Rightarrow>
          if rest \<noteq> [] then None
          else if valid_date y mo d \<and> sec \<le> 59
          then Some \<lparr>year = y, month = mo, day = d, hour = h, minute = mi, second = sec,
                     microsecond = 0, tzinfo = None\<rparr>
          else None)"

subsection \<open>Parsing the feed\<close>

definition parse_ical_datetime :: "string \<Rightarrow> datetime option" where
  "parse_ical_datetime dt_str0 =
     (let dt_str = py_replace ''Z'' [] dt_str0
      in if py_in ''T'' dt_str then strptime (take 15 dt_str) else None)"

text \<open>\<open>line.split(':', 1)\<close> for a line that contains a colon.\<close>

definition split_once :: "string \<Rightarrow> string \<times> string" where
  "split_once line =
     (takeWhile (\<lambda>c. c \<noteq> CHR '':'') line, tl (dropWhile (\<lambda>c. c \<noteq> CHR '':'') line))"

type_synonym ical_event = "(string \<times> string) list"

text \<open>Lines 84 to 89: the key and the value of a property line.\<close>

definition key_value :: "string \<Rightarrow> string \<times> string" where
  "key_value line =
     (if py_in '';'' (hd (py_split line '':''))
      then (let key_part = hd (py_split line '':'')
            in (hd (py_split key_part '';''), py_join '':'' (tl (py_split line '':''))))
      else split_once line)"

text \<open>One turn of the loop of \<open>parse_ical\<close>, on the events found so far and the
  event being read.\<close>

definition parse_line ::
  "string \<Rightarrow> ical_event list \<times> ical_event option \<Rightarrow> ical_event list \<times> ical_event option" where
  "parse_line line = (\<lambda>(events, current_event).
     if line = ''BEGIN:VEVENT'' then (events, Some [])
     else if line = ''END:VEVENT'' then
       (case current_event of
          None \<Rightarrow> (events, None)
        | Some ev \<Rightarrow> (if ev \<noteq> [] then events @ [ev] else events, None))
     else (case current_event of
             None \<Rightarrow> (events, current_event)
           | Some ev \<Rightarrow>
               if py_in '':'' line
               then (let (key, val) = key_value line
                     in (events, Some (AList.update key val ev)))
               else (events, current_event)))"

definition CRLF :: string where "CRLF = [CR, LF]"

definition parse_ical :: "string \<Rightarrow> ical_event list" where
  "parse_ical ical_content =
     (let lines = py_split (py_replace (CRLF @ [TAB]) []
                              (py_replace (CRLF @ '' '') [] ical_content)) CRLF
      in fst (fold parse_line lines ([], None)))"

subsection \<open>The pass\<close>

definition ICAL_URL :: string where
  "ICAL_URL = ''https://calendar.google.com/calendar/ical/boriss%40wix.com/public/basic.ics''"

text \<open>\<open>event.get(key, default)\<close>\<close>

definition get_default :: "ical_event \<Rightarrow> string \<Rightarrow> string \<Rightarrow> string" where
  "get_default event key dflt = (case map_of event key of None \<Rightarrow> dflt | Some v \<Rightarrow> v)"

text \<open>Line 218.\<close>

definition decode_escapes :: "string \<Rightarrow> string" where
  "decode_escapes s =
     py_replace [BACKSLASH, CHR ''n''] [LF]
       (py_replace [BACKSLASH, CHR '';''] '';''
          (py_replace [BACKSLASH, CHR '',''] '','' s))"

definition DOMAINS :: "string list" where
  "DOMAINS = [''zoom.us'', ''meet.google.com'', ''teams.microsoft.com'']"

definition mentions_provider :: "string \<Rightarrow> bool" where
  "mentions_provider text =
     (py_in ''zoom.us'' text \<or> py_in ''meet.google.com'' text \<or> py_in ''teams.microsoft.com'' text)"

definition url_stop :: "char \<Rightarrow> bool" where
  "url_stop c = (is_space c \<or> c = CHR ''<'' \<or> c = CHR ''>'' \<or> c = DQUOTE \<or> c = QUOTE \<or>
                 c = BACKSLASH)"

definition url_pattern :: "rx list" where
  "url_pattern = [Lit ''https://'', PlusNot url_stop]"

text \<open>Lines 230 to 234: the first URL of the text that contains one of the
  domains.\<close>

definition provider_url :: "string \<Rightarrow> string option" where
  "provider_url text =
     find (\<lambda>url. list_ex (\<lambda>domain. py_in domain url) DOMAINS) (rx_findall url_pattern text)"

text \<open>Lines 227 to 235: what the loop over description and location adds to the
  body. The loop ends at the first text that mentions a provider.\<close>

fun join_suffix :: "string list \<Rightarrow> string" where
  "join_suffix [] = []"
| "join_suffix (text # rest) =
     (if mentions_provider text
      then (case provider_url text of None \<Rightarrow> [] | Some url \<Rightarrow> [LF] @ ''Join: '' @ url)
      else join_suffix rest)"

definition ical_summary :: "ical_event \<Rightarrow> string" where
  "ical_summary event = decode_escapes (get_default event ''SUMMARY'' ''Untitled Meeting'')"

definition ical_request :: "ical_event \<Rightarrow> string \<Rightarrow> datetime \<Rightarrow> datetime \<Rightarrow> request" where
  "ical_request event eid start_time remind_time =
     \<lparr>event_id = eid, title = make_title (ical_summary event) start_time,
      body = (''Starts at '' @ strftime_HM start_time) @
             join_suffix [get_default event ''DESCRIPTION'' [], get_default event ''LOCATION'' []],
      remind_date = remind_time\<rparr>"

text \<open>Lines 240 to 253.\<close>

definition record_result_ical :: "env \<Rightarrow> string \<Rightarrow> string \<Rightarrow> string \<Rightarrow> datetime \<Rightarrow> loop_state \<Rightarrow> loop_state" where
  "record_result_ical e result eid summary start_time = (\<lambda>(synced, new_reminders, w).
     if result = ''created'' then
       (let w1 = log e (''(ok) Created reminder: '' @ summary @ '' at '' @ strftime_HM start_time) w;
            (now, w2) = datetime_now e w1
        in (AList.update eid (ledger_entry summary start_time now) synced,
            new_reminders + 1, w2))
     else if result = ''exists'' then
       (let (now, w1) = datetime_now e w
        in (AList.update eid (ledger_entry summary start_time now) synced,
            new_reminders, w1))
     else (synced, new_reminders, w))"

text \<open>One turn of the loop, lines 190 to 253; \<open>now\<close> and \<open>cutoff\<close> are those of
  lines 186 and 187.\<close>

definition ical_step ::
  "env \<Rightarrow> datetime \<Rightarrow> datetime \<Rightarrow> ical_event \<Rightarrow> loop_state \<Rightarrow> py_error option \<times> loop_state" where
  "ical_step e now cutoff event = (\<lambda>(synced, new_reminders, w).
     let eid = get_default event ''UID'' []
     in if eid = [] then (None, synced, new_reminders, w)
        else
          (case parse_ical_datetime (get_default event ''DTSTART'' []) of
             None \<Rightarrow> (None, synced, new_reminders, w)
           | Some start_time \<Rightarrow>
               if dt_less start_time now \<or> dt_less cutoff start_time
               then (None, synced, new_reminders, w)
               else if eid \<in> fst ` set synced then (None, synced, new_reminders, w)
               else
                 (case plus_minutes start_time (- REMINDER_MINUTES_BEFORE) of
                    None \<Rightarrow> (Some OverflowError, synced, new_reminders, w)
                  | Some remind_time \<Rightarrow>
                      if dt_less remind_time now then (None, synced, new_reminders, w)
                      else
                        (let (result, w1) =
                               create_macos_reminder e
                                 (ical_request event eid start_time remind_time) w
                         in (None, record_result_ical e result eid (ical_summary event)
                                     start_time (synced, new_reminders, w1))))))"

fun ical_loop ::
  "env \<Rightarrow> datetime \<Rightarrow> datetime \<Rightarrow> ical_event list \<Rightarrow> loop_state \<Rightarrow> py_error option \<times> loop_state" where
  "ical_loop e now cutoff [] st = (None, st)"
| "ical_loop e now cutoff (event # events) st =
     (case ical_step e now cutoff event st of
        (Some err, st') \<Rightarrow> (Some err, st')
      | (None, st') \<Rightarrow> ical_loop e now cutoff events st')"

text \<open>\<open>sync_calendar\<close> of the feed variant. \<open>fetched\<close> is what fetching and decoding
  the feed does: it raises with a message, or gives the text.\<close>

definition sync_calendar_ical :: "env \<Rightarrow> string + string \<Rightarrow> world \<Rightarrow> py_error option \<times> world" where
  "sync_calendar_ical e fetched w =
     (let w1 = log e ''(sync) Starting calendar sync (iCal)...'' w
      in if ICAL_URL = [] then
           (None, log e ''(x) ICAL_URL not configured! Edit calendar_sync_ical.py and paste your iCal URL.'' w1)
         else
           (let w2 = log e ''(fetch) Fetching calendar...'' w1
            in case fetched of
                 Inl msg \<Rightarrow> (None, log e (''(x) Failed to fetch calendar: '' @ msg) w2)
               | Inr ical_content \<Rightarrow>
                   (let w3 = ensure_reminder_list_exists w2;
                        (synced_events, w4) = load_synced_events e w3;
                        events = parse_ical ical_content;
                        w5 = log e (''(cal) Found '' @ str_nat (length events) @
                                    '' events in calendar'') w4;
                        (now, w6) = datetime_now e w5
                    in case plus_minutes now (SYNC_HOURS_AHEAD * 60) of
                         None \<Rightarrow> (Some OverflowError, w6)
                       | Some cutoff \<Rightarrow>
                           (case ical_loop e now cutoff events (synced_events, 0, w6) of
                              (Some err, synced, new_reminders, w7) \<Rightarrow> (Some err, w7)
                            | (None, synced, new_reminders, w7) \<Rightarrow>
                                (let w8 = save_synced_events synced w7
                                 in (None,
                                     log e (''(ok) Sync complete. Created '' @
                                            str_nat new_reminders @ '' new reminders.'') w8))))))"

section \<open>Reading the outcome of a turn of the loop\<close>

definition ledger_of :: "py_error option \<times> loop_state \<Rightarrow> ledger" where
  "ledger_of out = fst (snd out)"

definition world_of :: "py_error option \<times> loop_state \<Rightarrow> world" where
  "world_of out = snd (snd (snd out))"

section \<open>Concrete inputs\<close>

text \<open>A clock that shows 1 January 2025, 10:00, and advances one second with each
  reading; a zone two hours east of UTC; a world in which nothing has happened.\<close>

definition jan1 :: "nat \<Rightarrow> nat \<Rightarrow> datetime" where
  "jan1 h m = \<lparr>year = 2025, month = 1, day = 1, hour = h, minute = m, second = 0,
               microsecond = 0, tzinfo = None\<rparr>"

definition clock_10am :: "nat \<Rightarrow> datetime" where
  "clock_10am n = (jan1 10 0)\<lparr>second := n mod 60\<rparr>"

definition env_of :: "((request \<times> string) list \<Rightarrow> request \<Rightarrow> string) \<Rightarrow> env" where
  "env_of sink = \<lparr>local_clock = clock_10am, local_utcoffset = 120, osascript_reminder = sink\<rparr>"

definition always :: "string \<Rightarrow> (request \<times> string) list \<Rightarrow> request \<Rightarrow> string" where
  "always answer history r = answer"

definition fresh_world :: world where
  "fresh_world = \<lparr>ticks = 0, state_file = Absent, log_lines = [], ensure_calls = 0,
                  sink_log = []\<rparr>"

text \<open>An event of the API with a start time, and a parser that knows three start
  times.\<close>

definition timed_event :: "string \<Rightarrow> string \<Rightarrow> api_event" where
  "timed_event eid start =
     \<lparr>e_id = Some eid, e_start = Some \<lparr>date = None, dateTime = Some start\<rparr>,
      e_status = Some ''confirmed'', e_summary = Some ''Standup'', e_hangoutLink = None,
      e_conferenceData = None, e_description = None, e_organizer = None\<rparr>"

definition parse_table :: "string \<Rightarrow> datetime option" where
  "parse_table s =
     (if s = ''2025-01-01T14:00:00'' then Some (jan1 14 0)
      else if s = ''2025-01-01T10:02:00'' then Some (jan1 10 2)
      else if s = ''2025-01-01T14:00:00+02:00'' then Some ((jan1 14 0)\<lparr>tzinfo := Some 120\<rparr>)
      else None)"

text \<open>A feed with one event, given by its property lines.\<close>

definition feed_of :: "string list \<Rightarrow> string" where
  "feed_of props = concat (map (\<lambda>l. l @ CRLF)
     ([''BEGIN:VCALENDAR'', ''BEGIN:VEVENT''] @ props @ [''END:VEVENT'', ''END:VCALENDAR'']))"

section \<open>Relating the states of a pass\<close>

text \<open>The event ids of the calls to which the Reminders application answered
  \<open>created\<close> or \<open>exists\<close>.\<close>

definition successes :: "(request \<times> string) list \<Rightarrow> string list" where
  "successes calls =
     map (\<lambda>(r, res). event_id r) (filter (\<lambda>(r, res). res = ''created'' \<or> res = ''exists'') calls)"

text \<open>
  \<open>grows st st'\<close>: from \<open>st\<close> to \<open>st'\<close> the state file and the reminder list setup
  are untouched, calls \<open>new\<close> were made to the Reminders application, none for an id
  the ledger of \<open>st\<close> holds, and the ledger gained, at its end and in order, one
  entry for each id whose call was answered \<open>created\<close> or \<open>exists\<close>.
\<close>

definition grows :: "loop_state \<Rightarrow> loop_state \<Rightarrow> bool" where
  "grows st st' =
     (case (st, st') of ((synced, n, w), (synced', n', w')) \<Rightarrow>
        state_file w' = state_file w \<and> ensure_calls w' = ensure_calls w \<and>
        (\<exists>new extra.
           sink_log w' = sink_log w @ new \<and> synced' = synced @ extra \<and>
           map fst extra = successes new \<and> distinct (successes new) \<and>
           (\<forall>(r, res) \<in> set new. event_id r \<notin> fst ` set synced)))"

text \<open>\<open>retained e k w\<close>: the state file of \<open>w\<close> holds an object, and a load whose
  clock reading is the one numbered \<open>k\<close> keeps every entry of it.\<close>

definition retained :: "env \<Rightarrow> nat \<Rightarrow> world \<Rightarrow> bool" where
  "retained e k w =
     (case state_file w of
        Json (JObj items) \<Rightarrow>
          (case plus_minutes (local_clock e k) (- (2 * 24 * 60)) of
             None \<Rightarrow> False
           | Some c \<Rightarrow> entries_newer (isoformat c) items = Some items)
      | _ \<Rightarrow> False)"

section \<open>The state at the entry of the loop\<close>

text \<open>What \<open>sync_calendar\<close> has done when its loop starts: in the feed variant
  the ledger as loaded, the reading \<open>now\<close> of line 186 and the world; in the API
  variant the ledger as loaded and the world.\<close>

definition ical_loop_entry :: "env \<Rightarrow> string \<Rightarrow> world \<Rightarrow> ledger \<times> datetime \<times> world" where
  "ical_loop_entry e ical_content w =
     (let w2 = log e ''(fetch) Fetching calendar...''
                 (log e ''(sync) Starting calendar sync (iCal)...'' w);
          (synced_events, w4) = load_synced_events e (ensure_reminder_list_exists w2);
          w5 = log e (''(cal) Found '' @ str_nat (length (parse_ical ical_content)) @
                      '' events in calendar'') w4;
          (now, w6) = datetime_now e w5
      in (synced_events, now, w6))"

definition api_loop_entry :: "env \<Rightarrow> api_source \<Rightarrow> world \<Rightarrow> ledger \<times> world" where
  "api_loop_entry e src w =
     (let w2 = ensure_reminder_list_exists (log e ''(sync) Starting calendar sync...'' w);
          (synced_events, w3) = load_synced_events e w2;
          (listed, w4) = get_upcoming_events src w3
      in (synced_events, w4))"

section \<open>More concrete inputs\<close>

text \<open>Log lines stamped by the example clock.\<close>

definition logged :: "(nat \<times> string) list \<Rightarrow> (datetime \<times> string) list" where
  "logged xs = map (\<lambda>(k, m). (clock_10am k, m)) xs"

text \<open>A feed whose only event is cancelled, and the event as parsed.\<close>

definition cancelled_feed :: string where
  "cancelled_feed = feed_of [''UID:E1'', ''DTSTART:20250101T140000'', ''SUMMARY:Standup'', ''STATUS:CANCELLED'']"

definition cancelled_event :: ical_event where
  "cancelled_event = [(''UID'', ''E1''), (''DTSTART'', ''20250101T140000''),
                      (''SUMMARY'', ''Standup''), (''STATUS'', ''CANCELLED'')]"


text \<open>A feed whose only event starts at 09:00 UTC, which is 11:00 in the zone of
  the example.\<close>

definition utc_feed :: string where
  "utc_feed = feed_of [''UID:E2'', ''DTSTART:20250101T090000Z'', ''SUMMARY:Review'']"

definition utc_event :: ical_event where
  "utc_event = [(''UID'', ''E2''), (''DTSTART'', ''20250101T090000Z''), (''SUMMARY'', ''Review'')]"

text \<open>A calendar service whose query raises, and a world whose state file holds
  one entry.\<close>

definition failing_list :: api_source where
  "failing_list = \<lparr>connect_result = Connected, list_result = Inl ''timed out'',
                   dateutil_parse = parse_table\<rparr>"

definition world_with_ledger :: world where
  "world_with_ledger =
     fresh_world\<lparr>state_file := Json (JObj [(''E0'', ledger_entry ''Retro'' (jan1 9 0) (jan1 9 30))])\<rparr>"

section \<open>What the specification speaks of\<close>

text \<open>
  The host of an \<open>https\<close> URL, and the hosts the specification calls known
  meeting providers: one of the three domains, or a name below one of them.
\<close>

definition url_host :: "string \<Rightarrow> string" where
  "url_host u = takeWhile (\<lambda>c. c \<noteq> CHR ''/'' \<and> c \<noteq> CHR ''?'' \<and> c \<noteq> CHR ''#'' \<and> c \<noteq> CHR '':'')
                  (drop (length ''https://'') u)"

definition endswith :: "string \<Rightarrow> string \<Rightarrow> bool" where
  "endswith s suffix = startswith (rev s) (rev suffix)"

definition provider_host :: "string \<Rightarrow> bool" where
  "provider_host h = list_ex (\<lambda>d. h = d \<or> endswith h (''.'' @ d)) DOMAINS"




text \<open>An API event whose description links to an unrelated host, and a feed event
  with an escaped comma in its summary and in the link of its description.\<close>

definition api_link_event :: api_event where
  "api_link_event = (timed_event ''E5'' ''2025-01-01T14:00:00'')
     \<lparr>e_description := Some ''Slides: https://evil.example/zoom.us/j/1 (draft)''\<rparr>"


section \<open>Ledger entries as rows\<close>

text \<open>A row is an event id with what the program writes for it: the summary, the
  start time, and the clock reading \<open>synced_at\<close>. \<open>row_entry\<close> is the item of the
  ledger for a row. \<open>fraction\<close> is the part of \<open>isoformat\<close> for the microseconds.\<close>

definition row_entry :: "string \<times> string \<times> datetime \<times> datetime \<Rightarrow> string \<times> json" where
  "row_entry = (\<lambda>(k, summary, start_time, t). (k, ledger_entry summary start_time t))"

definition fraction :: "datetime \<Rightarrow> string" where
  "fraction t = (if microsecond t = 0 then [] else ''.'' @ zpad 6 (microsecond t))"

text \<open>A state file with two entries, one synced on 30 December 2024 at 09:00, the
  other on the same day a microsecond after 10:00.\<close>

definition old_row :: "string \<times> string \<times> datetime \<times> datetime" where
  "old_row = (''E7'', ''Planning'', (jan1 11 0)\<lparr>year := 2024, month := 12, day := 30\<rparr>,
              (jan1 9 0)\<lparr>year := 2024, month := 12, day := 30\<rparr>)"

definition recent_row :: "string \<times> string \<times> datetime \<times> datetime" where
  "recent_row = (''E0'', ''Retro'', jan1 9 0, (jan1 10 0)\<lparr>year := 2024, month := 12, day := 30,
                                                        microsecond := 1\<rparr>)"

definition world_two_entries :: world where
  "world_two_entries = fresh_world\<lparr>state_file := Json (JObj (map row_entry [old_row, recent_row]))\<rparr>"

section \<open>Basic facts\<close>

lemma startswith_Cons [simp]:
  "startswith (c # cs) (p # ps) = (c = p \<and> startswith cs ps)"
  by (auto simp: startswith_def)

lemma startswith_Nil [simp]: "startswith s []"
  by (simp add: startswith_def)

lemma startswith_Nil_left [simp]: "startswith [] p = (p = [])"
  by (auto simp: startswith_def)

lemma now_for_world: "snd (now_for e start_time w) = w\<lparr>ticks := Suc (ticks w)\<rparr>"
  by (simp add: now_for_def datetime_now_def datetime_now_tz_def split: option.splits)

lemma now_for_sink_log: "now_for e start_time w = (x, w1) \<Longrightarrow> sink_log w1 = sink_log w"
  using now_for_world [of e start_time w] by simp

lemma update_absent: "k \<notin> fst ` set xs \<Longrightarrow> AList.update k v xs = xs @ [(k, v)]"
  by (induction xs) auto

lemma grows_refl: "grows st st"
  by (cases st) (auto simp: grows_def successes_def)

lemma grows_same:
  "state_file w' = state_file w \<Longrightarrow> ensure_calls w' = ensure_calls w \<Longrightarrow>
   sink_log w' = sink_log w \<Longrightarrow> grows (synced, n, w) (synced, n', w')"
  by (auto simp: grows_def successes_def)

lemma successes_append: "successes (a @ b) = successes a @ successes b"
  by (simp add: successes_def)

lemma successes_subset: "set (successes new) \<subseteq> (\<lambda>(r, res). event_id r) ` set new"
  by (auto simp: successes_def)

lemma grows_trans:
  assumes "grows a b" "grows b c"
  shows "grows a c"
proof -
  obtain s0 n0 w0 where a: "a = (s0, n0, w0)" by (cases a)
  obtain s1 n1 w1 where b: "b = (s1, n1, w1)" by (cases b)
  obtain s2 n2 w2 where c: "c = (s2, n2, w2)" by (cases c)
  from assms(1) a b obtain new1 extra1 where
    f1: "state_file w1 = state_file w0" "ensure_calls w1 = ensure_calls w0"
        "sink_log w1 = sink_log w0 @ new1" "s1 = s0 @ extra1"
        "map fst extra1 = successes new1" "distinct (successes new1)"
        "\<forall>(r, res) \<in> set new1. event_id r \<notin> fst ` set s0"
    by (auto simp: grows_def)
  from assms(2) b c obtain new2 extra2 where
    f2: "state_file w2 = state_file w1" "ensure_calls w2 = ensure_calls w1"
        "sink_log w2 = sink_log w1 @ new2" "s2 = s1 @ extra2"
        "map fst extra2 = successes new2" "distinct (successes new2)"
        "\<forall>(r, res) \<in> set new2. event_id r \<notin> fst ` set s1"
    by (auto simp: grows_def)
  have keys1: "fst ` set s1 = fst ` set s0 \<union> set (successes new1)"
    using f1(4,5) by (metis image_Un set_append set_map)
  have disj: "set (successes new1) \<inter> set (successes new2) = {}"
    using f2(7) keys1 successes_subset [of new2] by fastforce
  have "sink_log w2 = sink_log w0 @ (new1 @ new2)"
    using f1(3) f2(3) by simp
  moreover have "s2 = s0 @ (extra1 @ extra2)"
    using f1(4) f2(4) by simp
  moreover have "map fst (extra1 @ extra2) = successes (new1 @ new2)"
    using f1(5) f2(5) by (simp add: successes_append)
  moreover have "distinct (successes (new1 @ new2))"
    using f1(6) f2(6) disj by (simp add: successes_append)
  moreover have "\<forall>(r, res) \<in> set (new1 @ new2). event_id r \<notin> fst ` set s0"
    using f1(7) f2(7) keys1 by auto
  ultimately show ?thesis
    unfolding a c grows_def using f1(1,2) f2(1,2) by (simp del: set_append)
qed

lemma log_fields [simp]:
  "state_file (log e m w) = state_file w" "ensure_calls (log e m w) = ensure_calls w"
  "sink_log (log e m w) = sink_log w" "ticks (log e m w) = Suc (ticks w)"
  "log_lines (log e m w) = log_lines w @ [(local_clock e (ticks w), m)]"
  by (simp_all add: log_def datetime_now_def)

lemma grows_call:
  assumes "eid \<notin> fst ` set synced" "event_id r = eid"
    and "sink_log w' = sink_log w @ [(r, res)]" "state_file w' = state_file w"
        "ensure_calls w' = ensure_calls w"
    and "if res = ''created'' \<or> res = ''exists'' then \<exists>v. synced' = AList.update eid v synced
         else synced' = synced"
  shows "grows (synced, n, w) (synced', n', w')"
proof (cases "res = ''created'' \<or> res = ''exists''")
  case True
  then obtain v where "synced' = synced @ [(eid, v)]"
    using assms(1,6) by (auto simp: update_absent)
  then show ?thesis
    using True assms unfolding grows_def
    by (auto simp: successes_def intro!: exI [of _ "[(r, res)]"])
next
  case False
  then show ?thesis
    using assms unfolding grows_def
    by (auto simp: successes_def intro!: exI [of _ "[(r, res)]"])
qed

lemma record_result_grows:
  assumes "eid \<notin> fst ` set synced" "event_id r = eid"
    and "sink_log w' = sink_log w @ [(r, res)]" "state_file w' = state_file w"
        "ensure_calls w' = ensure_calls w"
  shows "grows (synced, n, w) (record_result e res eid summary start_time (synced, n, w'))"
proof -
  obtain s' n' w'' where eq:
    "record_result e res eid summary start_time (synced, n, w') = (s', n', w'')"
    by (cases "record_result e res eid summary start_time (synced, n, w')") auto
  have "sink_log w'' = sink_log w'" "state_file w'' = state_file w'"
       "ensure_calls w'' = ensure_calls w'"
    using eq by (auto simp: record_result_def Let_def datetime_now_def split: if_splits)
  moreover have "if res = ''created'' \<or> res = ''exists''
                 then \<exists>v. s' = AList.update eid v synced else s' = synced"
    using eq by (auto simp: record_result_def Let_def datetime_now_def split: if_splits)
  ultimately show ?thesis
    unfolding eq using assms by (intro grows_call [where r = r and res = res]) auto
qed

lemma record_result_ical_grows:
  assumes "eid \<notin> fst ` set synced" "event_id r = eid"
    and "sink_log w' = sink_log w @ [(r, res)]" "state_file w' = state_file w"
        "ensure_calls w' = ensure_calls w"
  shows "grows (synced, n, w) (record_result_ical e res eid summary start_time (synced, n, w'))"
proof -
  obtain s' n' w'' where eq:
    "record_result_ical e res eid summary start_time (synced, n, w') = (s', n', w'')"
    by (cases "record_result_ical e res eid summary start_time (synced, n, w')") auto
  have "sink_log w'' = sink_log w'" "state_file w'' = state_file w'"
       "ensure_calls w'' = ensure_calls w'"
    using eq by (auto simp: record_result_ical_def Let_def datetime_now_def split: if_splits)
  moreover have "if res = ''created'' \<or> res = ''exists''
                 then \<exists>v. s' = AList.update eid v synced else s' = synced"
    using eq by (auto simp: record_result_ical_def Let_def datetime_now_def split: if_splits)
  ultimately show ?thesis
    unfolding eq using assms by (intro grows_call [where r = r and res = res]) auto
qed

lemma now_for_fields:
  "now_for e start_time w = (x, w1) \<Longrightarrow>
   sink_log w1 = sink_log w \<and> state_file w1 = state_file w \<and> ensure_calls w1 = ensure_calls w"
  using now_for_world [of e start_time w] by simp

lemma api_step_grows: "grows st (snd (api_step e parse event st))"
proof -
  obtain synced n w where st: "st = (synced, n, w)" by (cases st)
  show ?thesis
    unfolding st api_step_def
    by (auto simp: Let_def create_macos_reminder_def api_request_def
             split: option.splits prod.splits
             dest!: now_for_fields
             intro!: grows_same record_result_grows grows_refl)
qed

lemma ical_step_grows: "grows st (snd (ical_step e now cutoff event st))"
proof -
  obtain synced n w where st: "st = (synced, n, w)" by (cases st)
  show ?thesis
    unfolding st ical_step_def
    by (auto simp: Let_def create_macos_reminder_def ical_request_def
             split: option.splits prod.splits
             intro!: grows_same record_result_ical_grows grows_refl)
qed

lemma api_loop_grows: "grows st (snd (api_loop e parse events st))"
proof (induction events arbitrary: st)
  case Nil
  show ?case by (simp add: grows_refl)
next
  case (Cons event events)
  obtain err st' where step: "api_step e parse event st = (err, st')"
    by (cases "api_step e parse event st")
  have g: "grows st st'"
    using api_step_grows [of st e parse event] step by simp
  show ?case
  proof (cases err)
    case None
    then show ?thesis
      using step g Cons.IH [of st'] by (auto intro: grows_trans)
  next
    case (Some x)
    then show ?thesis using step g by simp
  qed
qed

lemma ical_loop_grows: "grows st (snd (ical_loop e now cutoff events st))"
proof (induction events arbitrary: st)
  case Nil
  show ?case by (simp add: grows_refl)
next
  case (Cons event events)
  obtain err st' where step: "ical_step e now cutoff event st = (err, st')"
    by (cases "ical_step e now cutoff event st")
  have g: "grows st st'"
    using ical_step_grows [of st e now cutoff event] step by simp
  show ?case
  proof (cases err)
    case None
    then show ?thesis
      using step g Cons.IH [of st'] by (auto intro: grows_trans)
  next
    case (Some x)
    then show ?thesis using step g by simp
  qed
qed



section \<open>Facts about a whole pass\<close>

lemma ical_run:
  assumes "ical_loop_entry e content w = (synced0, now, w6)"
    and "plus_minutes now (SYNC_HOURS_AHEAD * 60) = Some cutoff"
    and "ical_loop e now cutoff (parse_ical content) (synced0, 0, w6) = (err, synced, k, w7)"
  shows "sync_calendar_ical e (Inr content) w =
           (case err of
              Some x \<Rightarrow> (Some x, w7)
            | None \<Rightarrow> (None, log e (''(ok) Sync complete. Created '' @ str_nat k @
                                     '' new reminders.'') (save_synced_events synced w7)))"
proof -
  have url: "ICAL_URL \<noteq> []"
    by (simp add: ICAL_URL_def)
  show ?thesis
    using assms url
    by (cases err) (simp_all add: sync_calendar_ical_def ical_loop_entry_def Let_def split_def)
qed

lemma api_run:
  assumes "connect_result src = Connected" "list_result src = Inr events"
    and "api_loop_entry e src w = (synced0, w4)"
    and "api_loop e (dateutil_parse src) events (synced0, 0, w4) = (err, synced, k, w5)"
  shows "sync_calendar e src w =
           (case err of
              Some x \<Rightarrow> (Some x, w5)
            | None \<Rightarrow> (None, log e (''(ok) Sync complete. Created '' @ str_nat k @
                                     '' new reminders.'') (save_synced_events synced w5)))"
  using assms
  by (cases err)
     (simp_all add: sync_calendar_def api_loop_entry_def get_upcoming_events_def Let_def split_def)

lemma api_run_list_raises:
  assumes "connect_result src = Connected" "list_result src = Inl msg"
  shows "sync_calendar e src w = (Some (FetchError msg), snd (api_loop_entry e src w))"
  using assms
  by (simp add: sync_calendar_def api_loop_entry_def get_upcoming_events_def Let_def split_def)

lemma save_fields [simp]:
  "state_file (save_synced_events synced w) = Json (JObj synced)"
  "sink_log (save_synced_events synced w) = sink_log w"
  "ensure_calls (save_synced_events synced w) = ensure_calls w"
  "ticks (save_synced_events synced w) = ticks w"
  "log_lines (save_synced_events synced w) = log_lines w"
  by (simp_all add: save_synced_events_def)

lemma load_fields:
  "state_file (snd (load_synced_events e w)) = state_file w"
  "sink_log (snd (load_synced_events e w)) = sink_log w"
  "ensure_calls (snd (load_synced_events e w)) = ensure_calls w"
  "log_lines (snd (load_synced_events e w)) = log_lines w"
  by (simp_all add: load_synced_events_def datetime_now_def Let_def
        split: stored.splits json.splits option.splits)

lemma fetch_failure_keeps_state_file:
  "connect_result src \<noteq> Connected \<or> list_result src = Inl msg \<Longrightarrow>
   state_file (snd (sync_calendar e src w)) = state_file w \<and>
   sink_log (snd (sync_calendar e src w)) = sink_log w"
  "state_file (snd (sync_calendar_ical e (Inl msg) w)) = state_file w \<and>
   sink_log (snd (sync_calendar_ical e (Inl msg) w)) = sink_log w \<and>
   ensure_calls (snd (sync_calendar_ical e (Inl msg) w)) = ensure_calls w"
  by (auto simp: sync_calendar_def sync_calendar_ical_def get_upcoming_events_def Let_def
        split_def load_fields ensure_reminder_list_exists_def split: connect.splits sum.splits)

lemma connect_failure_logged:
  "connect_result src = ConnectRaises msg \<Longrightarrow>
   sync_calendar e src w =
     (None, log e (''(x) Failed to connect to Google Calendar: '' @ msg)
              (log e ''(sync) Starting calendar sync...'' w))"
  by (simp add: sync_calendar_def Let_def)

lemma api_untimed_or_cancelled_skipped:
  assumes "e_id event = Some eid"
    and "(\<exists>s. e_start event = Some s \<and> date s \<noteq> None \<and> dateTime s = None) \<or>
         e_status event = Some ''cancelled'' \<or>
         e_start event = None \<or> (\<exists>s. e_start event = Some s \<and> dateTime s = None)"
  shows "api_step e parse event st = (None, st)"
proof -
  have "api_start_time parse event = None"
    using assms(2) by (auto simp: api_start_time_def Let_def split: option.splits)
  then show ?thesis
    using assms(1) by (cases st) (simp add: api_step_def)
qed

lemma ical_all_day_skipped:
  assumes "\<not> py_in ''T'' (py_replace ''Z'' [] (get_default event ''DTSTART'' []))"
  shows "ical_step e now cutoff event st = (None, st)"
  using assms by (cases st) (simp add: ical_step_def parse_ical_datetime_def Let_def)

section \<open>Facts about matching\<close>

lemma startswith_append: "startswith s p = (\<exists>t. s = p @ t)"
  by (metis append_eq_conv_conj append_take_drop_id startswith_def)

lemma py_in_iff: "py_in sub s = (\<exists>pre post. s = pre @ sub @ post)"
proof (induction s)
  case Nil
  then show ?case by auto
next
  case (Cons c cs)
  show ?case
  proof
    assume "py_in sub (c # cs)"
    then consider "startswith (c # cs) sub" | "py_in sub cs" by auto
    then show "\<exists>pre post. c # cs = pre @ sub @ post"
    proof cases
      case 1
      then show ?thesis by (metis append_Nil startswith_append)
    next
      case 2
      then obtain pre post where "cs = pre @ sub @ post" using Cons.IH by blast
      then have "c # cs = (c # pre) @ sub @ post" by simp
      then show ?thesis by blast
    qed
  next
    assume "\<exists>pre post. c # cs = pre @ sub @ post"
    then obtain pre post where eq: "c # cs = pre @ sub @ post" by blast
    show "py_in sub (c # cs)"
    proof (cases pre)
      case Nil
      then have "startswith (c # cs) sub"
        using eq startswith_append [of "c # cs" sub] by auto
      then show ?thesis by simp
    next
      case (Cons a pre')
      then have "cs = pre' @ sub @ post" using eq by simp
      then show ?thesis using Cons.IH by auto
    qed
  qed
qed

lemma rx_match_suffix: "rx_match p s = Some t \<Longrightarrow> \<exists>m. s = m @ t"
proof (induction p s arbitrary: t rule: rx_match.induct)
  case (1 s)
  then show ?case by simp
next
  case (2 l r s)
  then show ?case
    by (auto simp: startswith_append split: if_splits)
next
  case (3 P r)
  then show ?case by simp
next
  case (4 P r c cs)
  then show ?case
    by (fastforce split: if_splits option.splits intro: exI [of _ "c # _"])
next
  case (5 P r)
  then show ?case by simp
next
  case (6 P r c cs)
  then show ?case
    by (fastforce split: if_splits intro: exI [of _ "c # _"])
qed

lemma rx_match_Lit:
  "rx_match (Lit l # r) s = Some t \<Longrightarrow> \<exists>s'. s = l @ s' \<and> rx_match r s' = Some t"
  by (auto simp: startswith_append split: if_splits)

lemma rx_match_StarNot:
  "rx_match (StarNot P # r) s = Some t \<Longrightarrow>
   \<exists>m s'. s = m @ s' \<and> (\<forall>c \<in> set m. \<not> P c) \<and> rx_match r s' = Some t"
proof (induction s)
  case Nil
  then show ?case by auto
next
  case (Cons c cs)
  show ?case
  proof (cases "\<not> P c \<and> rx_match (StarNot P # r) cs \<noteq> None")
    case True
    then have "rx_match (StarNot P # r) cs = Some t"
      using Cons.prems by (auto split: option.splits)
    then obtain m s' where "cs = m @ s'" "\<forall>c \<in> set m. \<not> P c" "rx_match r s' = Some t"
      using Cons.IH by blast
    then have "c # cs = (c # m) @ s' \<and> (\<forall>x \<in> set (c # m). \<not> P x) \<and> rx_match r s' = Some t"
      using True by simp
    then show ?thesis by blast
  next
    case False
    then have "rx_match r (c # cs) = Some t"
      using Cons.prems by (auto split: option.splits if_splits)
    then have "c # cs = [] @ (c # cs) \<and> (\<forall>x \<in> set []. \<not> P x) \<and> rx_match r (c # cs) = Some t"
      by simp
    then show ?thesis by blast
  qed
qed

lemma rx_match_PlusNot:
  "rx_match (PlusNot P # r) s = Some t \<Longrightarrow>
   \<exists>m s'. s = m @ s' \<and> m \<noteq> [] \<and> (\<forall>c \<in> set m. \<not> P c) \<and> rx_match r s' = Some t"
proof (cases s)
  case Nil
  assume "rx_match (PlusNot P # r) s = Some t"
  then show ?thesis using Nil by simp
next
  case (Cons c cs)
  assume a: "rx_match (PlusNot P # r) s = Some t"
  then have c: "\<not> P c" and "rx_match (StarNot P # r) cs = Some t"
    using Cons by (auto split: if_splits)
  then obtain m s' where "cs = m @ s'" "\<forall>c \<in> set m. \<not> P c" "rx_match r s' = Some t"
    using rx_match_StarNot by blast
  then have "s = (c # m) @ s' \<and> c # m \<noteq> [] \<and> (\<forall>x \<in> set (c # m). \<not> P x) \<and>
             rx_match r s' = Some t"
    using c Cons by simp
  then show ?thesis by blast
qed

lemma rx_search_match:
  "rx_search p s = Some u \<Longrightarrow> \<exists>pre post. s = pre @ u @ post \<and> rx_match p (u @ post) = Some post"
proof (induction s)
  case Nil
  then show ?case by (auto split: option.splits dest: rx_match_suffix)
next
  case (Cons c cs)
  show ?case
  proof (cases "rx_match p (c # cs)")
    case None
    then have "rx_search p cs = Some u" using Cons.prems by simp
    then obtain pre post where "cs = pre @ u @ post" "rx_match p (u @ post) = Some post"
      using Cons.IH by blast
    then have "c # cs = (c # pre) @ u @ post \<and> rx_match p (u @ post) = Some post" by simp
    then show ?thesis by blast
  next
    case (Some rest)
    then obtain m where m: "c # cs = m @ rest" using rx_match_suffix by blast
    have "u = take (length (c # cs) - length rest) (c # cs)"
      using Cons.prems Some by simp
    then have "u = m" using m by simp
    then have "c # cs = [] @ u @ rest \<and> rx_match p (u @ rest) = Some rest"
      using m Some by simp
    then show ?thesis by blast
  qed
qed

lemma rx_findall_match:
  "u \<in> set (rx_findall p s) \<Longrightarrow>
   \<exists>pre post. s = pre @ u @ post \<and> rx_match p (u @ post) = Some post"
proof (induction p s rule: rx_findall.induct)
  case (1 p)
  then show ?case
    using rx_match_suffix [of p "[]"] by (cases "rx_match p []") auto
next
  case (2 p c cs)
  show ?case
  proof (cases "rx_match p (c # cs)")
    case None
    then have "u \<in> set (rx_findall p cs)" using "2.prems" by simp
    then obtain pre post where "cs = pre @ u @ post" "rx_match p (u @ post) = Some post"
      using "2.IH"(1) None by blast
    then have "c # cs = (c # pre) @ u @ post \<and> rx_match p (u @ post) = Some post" by simp
    then show ?thesis by blast
  next
    case (Some rest)
    then obtain m where m: "c # cs = m @ rest" using rx_match_suffix by blast
    define n where "n = length (c # cs) - length rest"
    have n: "n = length m" using m by (simp add: n_def)
    show ?thesis
    proof (cases "n = 0")
      case True
      then have m0: "m = []" using n by simp
      from True "2.prems" Some consider "u = []" | "u \<in> set (rx_findall p cs)"
        by (auto simp: n_def Let_def)
      then show ?thesis
      proof cases
        case 1
        then have "c # cs = [] @ u @ rest \<and> rx_match p (u @ rest) = Some rest"
          using m m0 Some by simp
        then show ?thesis by blast
      next
        case 2
        then obtain pre post where "cs = pre @ u @ post" "rx_match p (u @ post) = Some post"
          using "2.IH"(2) Some True n_def by blast
        then have "c # cs = (c # pre) @ u @ post \<and> rx_match p (u @ post) = Some post" by simp
        then show ?thesis by blast
      qed
    next
      case False
      then have mne: "m \<noteq> []" using n by auto
      have dr: "drop (n - 1) cs = rest"
        using m mne n by (cases m) auto
      have tk: "take n (c # cs) = m"
        using m n by simp
      from False "2.prems" Some consider "u = m" | "u \<in> set (rx_findall p rest)"
        using dr tk by (auto simp: n_def Let_def)
      then show ?thesis
      proof cases
        case 1
        then have "c # cs = [] @ u @ rest \<and> rx_match p (u @ rest) = Some rest"
          using m Some by simp
        then show ?thesis by blast
      next
        case 2
        then obtain pre post where "rest = pre @ u @ post" "rx_match p (u @ post) = Some post"
          using "2.IH"(3) Some False n_def dr by metis
        then have "c # cs = (m @ pre) @ u @ post \<and> rx_match p (u @ post) = Some post"
          using m by simp
        then show ?thesis by blast
      qed
    qed
  qed
qed


lemma zoom_pattern_shape:
  assumes "rx_search zoom_pattern d = Some u"
  shows "(\<exists>pre post. d = pre @ u @ post) \<and>
         (\<exists>a b. u = ''https://'' @ a @ ''zoom.us/'' @ b \<and> (\<forall>c \<in> set a. \<not> is_space c) \<and>
                b \<noteq> [] \<and> (\<forall>c \<in> set b. \<not> link_stop c))"
proof -
  obtain pre post where d: "d = pre @ u @ post"
    and m: "rx_match zoom_pattern (u @ post) = Some post"
    using rx_search_match [OF assms] by blast
  obtain s1 where s1: "u @ post = ''https://'' @ s1"
    and m1: "rx_match [StarNot is_space, Lit ''zoom.us/'', PlusNot link_stop] s1 = Some post"
    using rx_match_Lit m unfolding zoom_pattern_def by blast
  obtain a s2 where s2: "s1 = a @ s2" and a: "\<forall>c \<in> set a. \<not> is_space c"
    and m2: "rx_match [Lit ''zoom.us/'', PlusNot link_stop] s2 = Some post"
    using rx_match_StarNot [OF m1] by blast
  obtain s3 where s3: "s2 = ''zoom.us/'' @ s3"
    and m3: "rx_match [PlusNot link_stop] s3 = Some post"
    using rx_match_Lit [OF m2] by blast
  obtain b s4 where s4: "s3 = b @ s4" and b: "b \<noteq> []" "\<forall>c \<in> set b. \<not> link_stop c"
    and m4: "rx_match [] s4 = Some post"
    using rx_match_PlusNot [OF m3] by blast
  have "s4 = post" using m4 by simp
  then have "u @ post = (''https://'' @ a @ ''zoom.us/'' @ b) @ post"
    using s1 s2 s3 s4 by simp
  then have "u = ''https://'' @ a @ ''zoom.us/'' @ b"
    by (simp only: append_same_eq)
  then show ?thesis using d a b by blast
qed

lemma fixed_host_pattern_shape:
  assumes "rx_search [Lit l, PlusNot link_stop] d = Some u"
  shows "(\<exists>pre post. d = pre @ u @ post) \<and>
         (\<exists>b. u = l @ b \<and> b \<noteq> [] \<and> (\<forall>c \<in> set b. \<not> link_stop c))"
proof -
  obtain pre post where d: "d = pre @ u @ post"
    and m: "rx_match [Lit l, PlusNot link_stop] (u @ post) = Some post"
    using rx_search_match [OF assms] by blast
  obtain s1 where s1: "u @ post = l @ s1"
    and m1: "rx_match [PlusNot link_stop] s1 = Some post"
    using rx_match_Lit [OF m] by blast
  obtain b s2 where s2: "s1 = b @ s2" and b: "b \<noteq> []" "\<forall>c \<in> set b. \<not> link_stop c"
    and m2: "rx_match [] s2 = Some post"
    using rx_match_PlusNot [OF m1] by blast
  have "s2 = post" using m2 by simp
  then have "u @ post = (l @ b) @ post"
    using s1 s2 by simp
  then have "u = l @ b"
    by (simp only: append_same_eq)
  then show ?thesis using d b by blast
qed

lemma url_pattern_shape:
  assumes "v \<in> set (rx_findall url_pattern text)"
  shows "(\<exists>pre post. text = pre @ v @ post) \<and>
         (\<exists>b. v = ''https://'' @ b \<and> b \<noteq> [] \<and> (\<forall>c \<in> set b. \<not> url_stop c))"
proof -
  obtain pre post where d: "text = pre @ v @ post"
    and m: "rx_match url_pattern (v @ post) = Some post"
    using rx_findall_match [OF assms] by blast
  obtain s1 where s1: "v @ post = ''https://'' @ s1"
    and m1: "rx_match [PlusNot url_stop] s1 = Some post"
    using rx_match_Lit m unfolding url_pattern_def by blast
  obtain b s2 where s2: "s1 = b @ s2" and b: "b \<noteq> []" "\<forall>c \<in> set b. \<not> url_stop c"
    and m2: "rx_match [] s2 = Some post"
    using rx_match_PlusNot [OF m1] by blast
  have "s2 = post" using m2 by simp
  then have "v @ post = (''https://'' @ b) @ post"
    using s1 s2 by simp
  then have "v = ''https://'' @ b"
    by (simp only: append_same_eq)
  then show ?thesis using d b by blast
qed








section \<open>Facts about dates and their text\<close>

lemma length_zpad [simp]: "length (zpad w n) = w"
  by (induction w arbitrary: n) auto

lemma append_less_same_length:
  fixes x y :: "'a::linorder list"
  shows "length x = length y \<Longrightarrow> (x @ u < y @ v) = (x < y \<or> x = y \<and> u < v)"
  by (induction x y rule: list_induct2) auto

lemma digit_char_code: "d < 10 \<Longrightarrow> of_char (digit_char d) = (48 + d :: nat)"
proof -
  assume "d < 10"
  then consider "d = 0" | "d = 1" | "d = 2" | "d = 3" | "d = 4" | "d = 5" | "d = 6" | "d = 7"
    | "d = 8" | "d = 9"
    by atomize_elim arith
  then show ?thesis
    by cases (simp_all add: digit_char_def)
qed

lemma digit_char_less: "a < 10 \<Longrightarrow> b < 10 \<Longrightarrow> (digit_char a < digit_char b) = (a < b)"
  by (simp add: less_char_def digit_char_code)

lemma digit_char_eq: "a < 10 \<Longrightarrow> b < 10 \<Longrightarrow> (digit_char a = digit_char b) = (a = b)"
  by (metis digit_char_code add_left_cancel)

lemma zpad_eq: "a < 10 ^ w \<Longrightarrow> b < 10 ^ w \<Longrightarrow> (zpad w a = zpad w b) = (a = b)"
proof (induction w arbitrary: a b)
  case 0
  then show ?case by simp
next
  case (Suc w)
  have "a div 10 < 10 ^ w" "b div 10 < 10 ^ w"
    using Suc.prems by (simp_all add: less_mult_imp_div_less mult.commute)
  then have "(zpad w (a div 10) = zpad w (b div 10)) = (a div 10 = b div 10)"
    using Suc.IH by blast
  moreover have "(digit_char (a mod 10) = digit_char (b mod 10)) = (a mod 10 = b mod 10)"
    by (simp add: digit_char_eq)
  moreover have "(a = b) = (a div 10 = b div 10 \<and> a mod 10 = b mod 10)"
    by (metis div_mult_mod_eq)
  ultimately show ?case by simp
qed

lemma zpad_less: "a < 10 ^ w \<Longrightarrow> b < 10 ^ w \<Longrightarrow> (zpad w a < zpad w b) = (a < b)"
proof (induction w arbitrary: a b)
  case 0
  then show ?case by simp
next
  case (Suc w)
  have bounds: "a div 10 < 10 ^ w" "b div 10 < 10 ^ w"
    using Suc.prems by (simp_all add: less_mult_imp_div_less mult.commute)
  have "(zpad (Suc w) a < zpad (Suc w) b) =
          (zpad w (a div 10) < zpad w (b div 10) \<or>
           zpad w (a div 10) = zpad w (b div 10) \<and> digit_char (a mod 10) < digit_char (b mod 10))"
    by (simp add: append_less_same_length)
  also have "\<dots> = (a div 10 < b div 10 \<or> a div 10 = b div 10 \<and> a mod 10 < b mod 10)"
    using Suc.IH [OF bounds] zpad_eq [OF bounds] by (simp add: digit_char_less)
  also have "\<dots> = (a < b)"
  proof -
    have "a = 10 * (a div 10) + a mod 10" "b = 10 * (b div 10) + b mod 10" by simp_all
    moreover have "a mod 10 < 10" "b mod 10 < 10" by simp_all
    ultimately show ?thesis by linarith
  qed
  finally show ?case .
qed


lemma days_in_month_bounds: "1 \<le> days_in_month y m" "days_in_month y m \<le> 31"
  by (simp_all add: days_in_month_def)

lemma fraction_less:
  "microsecond a < 1000000 \<Longrightarrow> microsecond b < 1000000 \<Longrightarrow>
   (fraction a < fraction b) = (microsecond a < microsecond b)"
  using zpad_less [of "microsecond a" 6 "microsecond b"]
  by (auto simp: fraction_def)

lemma fraction_eq:
  "microsecond a < 1000000 \<Longrightarrow> microsecond b < 1000000 \<Longrightarrow>
   (fraction a = fraction b) = (microsecond a = microsecond b)"
  using zpad_eq [of "microsecond a" 6 "microsecond b"]
  by (auto simp: fraction_def)

lemma isoformat_naive:
  "tzinfo t = None \<Longrightarrow>
   isoformat t = zpad 4 (year t) @ CHR ''-'' # zpad 2 (month t) @ CHR ''-'' # zpad 2 (day t) @
                 CHR ''T'' # zpad 2 (hour t) @ CHR '':'' # zpad 2 (minute t) @
                 CHR '':'' # zpad 2 (second t) @ fraction t"
  by (simp add: isoformat_def fraction_def)

lemma isoformat_less:
  assumes "valid_datetime a" "valid_datetime b" "tzinfo a = None" "tzinfo b = None"
  shows "(isoformat a < isoformat b) = dt_less a b"
proof -
  have ya: "year a < 10 ^ 4" and yb: "year b < 10 ^ 4"
    using assms(1,2) by (simp_all add: valid_datetime_def valid_date_def)
  have ma: "month a < 10 ^ 2" and mb: "month b < 10 ^ 2"
    using assms(1,2) by (simp_all add: valid_datetime_def valid_date_def)
  have da: "day a < 10 ^ 2" and db: "day b < 10 ^ 2"
    using assms(1,2) days_in_month_bounds(2) [of "year a" "month a"]
      days_in_month_bounds(2) [of "year b" "month b"]
    by (simp_all add: valid_datetime_def valid_date_def)
  have ha: "hour a < 10 ^ 2" and hb: "hour b < 10 ^ 2"
    using assms(1,2) by (simp_all add: valid_datetime_def)
  have mia: "minute a < 10 ^ 2" and mib: "minute b < 10 ^ 2"
    using assms(1,2) by (simp_all add: valid_datetime_def)
  have sa: "second a < 10 ^ 2" and sb: "second b < 10 ^ 2"
    using assms(1,2) by (simp_all add: valid_datetime_def)
  have ua: "microsecond a < 1000000" and ub: "microsecond b < 1000000"
    using assms(1,2) by (simp_all add: valid_datetime_def)
  show ?thesis
    unfolding isoformat_naive [OF assms(3)] isoformat_naive [OF assms(4)] dt_less_def dt_key_def
    by (simp add: append_less_same_length
          zpad_less [OF ya yb] zpad_eq [OF ya yb] zpad_less [OF ma mb] zpad_eq [OF ma mb]
          zpad_less [OF da db] zpad_eq [OF da db] zpad_less [OF ha hb] zpad_eq [OF ha hb]
          zpad_less [OF mia mib] zpad_eq [OF mia mib] zpad_less [OF sa sb] zpad_eq [OF sa sb]
          fraction_less [OF ua ub] fraction_eq [OF ua ub])
qed

lemma next_day_valid:
  "valid_date y m d \<Longrightarrow> next_day (y, m, d) = Some (y', m', d') \<Longrightarrow> valid_date y' m' d'"
  using days_in_month_bounds(1) [of y "m + 1"] days_in_month_bounds(1) [of "y + 1" 1]
  by (auto simp: next_day_def valid_date_def split: if_splits)

lemma prev_day_valid:
  "valid_date y m d \<Longrightarrow> prev_day (y, m, d) = Some (y', m', d') \<Longrightarrow> valid_date y' m' d'"
  using days_in_month_bounds(1) [of y "m - 1"]
  by (auto simp: prev_day_def valid_date_def days_in_month_def split: if_splits)

lemma iterate_day_valid:
  assumes step: "\<And>y m d y' m' d'. valid_date y m d \<Longrightarrow> f (y, m, d) = Some (y', m', d') \<Longrightarrow>
                   valid_date y' m' d'"
  shows "valid_date y m d \<Longrightarrow> iterate_day f n (y, m, d) = Some (y', m', d') \<Longrightarrow>
         valid_date y' m' d'"
proof (induction n arbitrary: y m d)
  case 0
  then show ?case by simp
next
  case (Suc n)
  then obtain y1 m1 d1 where f: "f (y, m, d) = Some (y1, m1, d1)"
    and rest: "iterate_day f n (y1, m1, d1) = Some (y', m', d')"
    by (auto split: option.splits)
  show ?case
    using Suc.IH [OF step [OF Suc.prems(1) f] rest] .
qed

lemma shift_days_valid:
  "valid_date y m d \<Longrightarrow> shift_days k (y, m, d) = Some (y', m', d') \<Longrightarrow> valid_date y' m' d'"
  unfolding shift_days_def
  by (auto split: if_splits intro: iterate_day_valid [of next_day] iterate_day_valid [of prev_day]
           next_day_valid prev_day_valid)

lemma plus_minutes_valid:
  assumes "valid_datetime t" "plus_minutes t n = Some c"
  shows "valid_datetime c \<and> tzinfo c = tzinfo t \<and> second c = second t \<and>
         microsecond c = microsecond t"
proof -
  define m where "m = int (hour t * 60 + minute t) + n"
  obtain y' m' d' where sh: "shift_days (m div 1440) (year t, month t, day t) = Some (y', m', d')"
    and c: "c = t\<lparr>year := y', month := m', day := d',
                  hour := nat (m mod 1440) div 60, minute := nat (m mod 1440) mod 60\<rparr>"
    using assms(2) unfolding plus_minutes_def m_def [symmetric]
    by (auto simp: Let_def split: option.splits)
  have "valid_date y' m' d'"
    using shift_days_valid [OF _ sh] assms(1) by (simp add: valid_datetime_def)
  moreover have "nat (m mod 1440) div 60 < 24"
    by (simp add: div_less_iff_less_mult nat_less_iff)
  ultimately show ?thesis
    using assms(1) c by (simp add: valid_datetime_def)
qed


lemma synced_at_newer_entry:
  "synced_at_newer cutoff (ledger_entry summary start_time t) = Some (cutoff < isoformat t)"
  by (simp add: synced_at_newer_def ledger_entry_def)

lemma entries_newer_rows:
  "entries_newer cutoff (map row_entry rows) =
     Some (map row_entry (filter (\<lambda>(k, summary, start_time, t). cutoff < isoformat t) rows))"
  by (induction rows) (auto simp: row_entry_def synced_at_newer_entry)

lemma two_days_back:
  assumes "hour t < 24" "minute t < 60" "plus_minutes t (- (2 * 24 * 60)) = Some c"
  shows "shift_days (- 2) (year t, month t, day t) = Some (year c, month c, day c) \<and>
         hour c = hour t \<and> minute c = minute t \<and> second c = second t \<and>
         microsecond c = microsecond t \<and> tzinfo c = tzinfo t"
proof -
  define a where "a = int (hour t * 60 + minute t)"
  have a: "0 \<le> a" "a < 1440"
    using assms(1,2) by (auto simp: a_def)
  have d: "(a + - (2 * 24 * 60)) div 1440 = - 2"
    using a div_mult_self1 [of 1440 a "- 2"] by simp
  have m: "(a + - (2 * 24 * 60)) mod 1440 = a"
    using a mod_mult_self1 [of a "- 2" 1440] by simp
  have "nat a = hour t * 60 + minute t"
    by (simp add: a_def)
  then have h: "nat a div 60 = hour t" "nat a mod 60 = minute t"
    using assms(2) by simp_all
  show ?thesis
    using assms(3) unfolding plus_minutes_def a_def [symmetric] Let_def d m
    by (auto simp: h split: option.splits)
qed

section \<open>Facts about two passes\<close>

lemma load_retained:
  assumes "retained e (ticks w) w"
  shows "\<exists>L. state_file w = Json (JObj L) \<and>
             load_synced_events e w = (L, w\<lparr>ticks := Suc (ticks w)\<rparr>)"
  using assms
  by (auto simp: retained_def load_synced_events_def datetime_now_def
           split: stored.splits json.splits option.splits)

lemma retained_cong:
  "state_file w' = state_file w \<Longrightarrow> retained e k w' = retained e k w"
  by (simp add: retained_def)

lemma grows_unfold:
  assumes "grows (synced, n, w) (synced', n', w')"
  shows "state_file w' = state_file w \<and>
         (\<exists>new extra. sink_log w' = sink_log w @ new \<and> synced' = synced @ extra \<and>
            map fst extra = successes new \<and> distinct (successes new) \<and>
            (\<forall>(r, res) \<in> set new. event_id r \<notin> fst ` set synced))"
  using assms by (simp add: grows_def)

lemma ical_loop_entry_retained:
  assumes ret: "retained e (ticks w + 2) w"
  shows "\<exists>L now w6. state_file w = Json (JObj L) \<and> ical_loop_entry e content w = (L, now, w6) \<and>
           state_file w6 = state_file w \<and> sink_log w6 = sink_log w"
proof -
  define w3 where "w3 = ensure_reminder_list_exists
               (log e ''(fetch) Fetching calendar...''
                  (log e ''(sync) Starting calendar sync (iCal)...'' w))"
  have w3: "state_file w3 = state_file w" "sink_log w3 = sink_log w" "ticks w3 = ticks w + 2"
    by (simp_all add: w3_def ensure_reminder_list_exists_def)
  have "retained e (ticks w3) w3"
    using ret w3 by (simp add: retained_def)
  then obtain L where L: "state_file w3 = Json (JObj L)"
    and load: "load_synced_events e w3 = (L, w3\<lparr>ticks := Suc (ticks w3)\<rparr>)"
    using load_retained by blast
  define w5 where "w5 = log e (''(cal) Found '' @ str_nat (length (parse_ical content)) @
                      '' events in calendar'') (w3\<lparr>ticks := Suc (ticks w3)\<rparr>)"
  have eq: "ical_loop_entry e content w = (L, fst (datetime_now e w5), snd (datetime_now e w5))"
    unfolding ical_loop_entry_def w3_def [symmetric] Let_def load prod.case w5_def [symmetric]
    by (simp add: split_def)
  have "state_file (snd (datetime_now e w5)) = state_file w"
       "sink_log (snd (datetime_now e w5)) = sink_log w"
    using w3 by (simp_all add: datetime_now_def w5_def)
  then have "state_file w = Json (JObj L) \<and>
      ical_loop_entry e content w = (L, fst (datetime_now e w5), snd (datetime_now e w5)) \<and>
      state_file (snd (datetime_now e w5)) = state_file w \<and>
      sink_log (snd (datetime_now e w5)) = sink_log w"
    using eq L w3(1) by simp
  then show ?thesis by blast
qed

lemma api_loop_entry_retained:
  assumes ret: "retained e (ticks w + 1) w"
  shows "\<exists>L w4. state_file w = Json (JObj L) \<and> api_loop_entry e src w = (L, w4) \<and>
           state_file w4 = state_file w \<and> sink_log w4 = sink_log w"
proof -
  define w2 where "w2 = ensure_reminder_list_exists (log e ''(sync) Starting calendar sync...'' w)"
  have w2: "state_file w2 = state_file w" "sink_log w2 = sink_log w" "ticks w2 = ticks w + 1"
    by (simp_all add: w2_def ensure_reminder_list_exists_def)
  have "retained e (ticks w2) w2"
    using ret w2 by (simp add: retained_def)
  then obtain L where L: "state_file w2 = Json (JObj L)"
    and load: "load_synced_events e w2 = (L, w2\<lparr>ticks := Suc (ticks w2)\<rparr>)"
    using load_retained by blast
  have eq: "api_loop_entry e src w =
              (L, snd (get_upcoming_events src (w2\<lparr>ticks := Suc (ticks w2)\<rparr>)))"
    unfolding api_loop_entry_def w2_def [symmetric] Let_def load prod.case
    by (simp add: split_def)
  have "state_file (snd (get_upcoming_events src (w2\<lparr>ticks := Suc (ticks w2)\<rparr>))) = state_file w"
       "sink_log (snd (get_upcoming_events src (w2\<lparr>ticks := Suc (ticks w2)\<rparr>))) = sink_log w"
    using w2 by (simp_all add: get_upcoming_events_def)
  then have "state_file w = Json (JObj L) \<and>
      api_loop_entry e src w = (L, snd (get_upcoming_events src (w2\<lparr>ticks := Suc (ticks w2)\<rparr>))) \<and>
      state_file (snd (get_upcoming_events src (w2\<lparr>ticks := Suc (ticks w2)\<rparr>))) = state_file w \<and>
      sink_log (snd (get_upcoming_events src (w2\<lparr>ticks := Suc (ticks w2)\<rparr>))) = sink_log w"
    using eq L w2(1) by simp
  then show ?thesis by blast
qed

lemma ical_run_overflow:
  assumes "ical_loop_entry e content w = (synced0, now, w6)"
    and "plus_minutes now (SYNC_HOURS_AHEAD * 60) = None"
  shows "sync_calendar_ical e (Inr content) w = (Some OverflowError, w6)"
proof -
  have url: "ICAL_URL \<noteq> []"
    by (simp add: ICAL_URL_def)
  show ?thesis
    using assms url
    by (simp add: sync_calendar_ical_def ical_loop_entry_def Let_def split_def)
qed

lemma pass_extends_ledger_ical:
  assumes ret: "retained e (ticks w + 2) w"
    and run: "sync_calendar_ical e (Inr content) w = (err, w')"
  shows "\<exists>L new extra. state_file w = Json (JObj L) \<and> sink_log w' = sink_log w @ new \<and>
           (\<forall>(r, res) \<in> set new. event_id r \<notin> fst ` set L) \<and>
           map fst extra = successes new \<and> distinct (successes new) \<and>
           state_file w' = (if err = None then Json (JObj (L @ extra)) else state_file w)"
proof -
  obtain L now w6 where L: "state_file w = Json (JObj L)"
    and entry: "ical_loop_entry e content w = (L, now, w6)"
    and w6: "state_file w6 = state_file w" "sink_log w6 = sink_log w"
    using ical_loop_entry_retained [OF ret] by blast
  show ?thesis
  proof (cases "plus_minutes now (SYNC_HOURS_AHEAD * 60)")
    case None
    have "err = Some OverflowError" "w' = w6"
      using ical_run_overflow [OF entry None] run by simp_all
    then have fin: "state_file w = Json (JObj L) \<and> sink_log w' = sink_log w @ [] \<and>
           (\<forall>(r, res) \<in> set []. event_id r \<notin> fst ` set L) \<and>
           map fst ([] :: ledger) = successes [] \<and> distinct (successes []) \<and>
           state_file w' = (if err = None then Json (JObj (L @ [])) else state_file w)"
      using L w6 by (simp add: successes_def)
    show ?thesis
      by (rule exI [where x = L], rule exI [where x = "[]"], rule exI [where x = "[]"])
         (rule fin)
  next
    case (Some cutoff)
    obtain err' synced k w7 where loop:
      "ical_loop e now cutoff (parse_ical content) (L, 0, w6) = (err', synced, k, w7)"
      using prod_cases4 by blast
    have gr: "grows (L, 0, w6) (synced, k, w7)"
      using ical_loop_grows [of "(L, 0, w6)" e now cutoff "parse_ical content"] loop by simp
    have g0: "state_file w7 = state_file w6"
      using grows_unfold [OF gr] by (rule conjunct1)
    have "\<exists>new extra. sink_log w7 = sink_log w6 @ new \<and> synced = L @ extra \<and>
            map fst extra = successes new \<and> distinct (successes new) \<and>
            (\<forall>(r, res) \<in> set new. event_id r \<notin> fst ` set L)"
      using grows_unfold [OF gr] by (rule conjunct2)
    then obtain new where "\<exists>extra. sink_log w7 = sink_log w6 @ new \<and> synced = L @ extra \<and>
            map fst extra = successes new \<and> distinct (successes new) \<and>
            (\<forall>(r, res) \<in> set new. event_id r \<notin> fst ` set L)" ..
    then obtain extra where gc: "sink_log w7 = sink_log w6 @ new \<and> synced = L @ extra \<and>
            map fst extra = successes new \<and> distinct (successes new) \<and>
            (\<forall>(r, res) \<in> set new. event_id r \<notin> fst ` set L)" ..
    note g = g0 gc
    have res: "(err, w') = (case err' of
              Some x \<Rightarrow> (Some x, w7)
            | None \<Rightarrow> (None, log e (''(ok) Sync complete. Created '' @ str_nat k @
                                     '' new reminders.'') (save_synced_events synced w7)))"
      using ical_run [OF entry Some loop] run by simp
    have fin: "state_file w = Json (JObj L) \<and> sink_log w' = sink_log w @ new \<and>
           (\<forall>(r, res) \<in> set new. event_id r \<notin> fst ` set L) \<and>
           map fst extra = successes new \<and> distinct (successes new) \<and>
           state_file w' = (if err = None then Json (JObj (L @ extra)) else state_file w)"
    proof (cases err')
      case None
      then show ?thesis using res g w6 L by simp
    next
      case (Some x)
      then show ?thesis using res g w6 L by simp
    qed
    show ?thesis
      by (rule exI [where x = L], rule exI [where x = new], rule exI [where x = extra])
         (rule fin)
  qed
qed


lemma pass_extends_ledger_api:
  assumes ret: "retained e (ticks w + 1) w"
    and src: "connect_result src = Connected" "list_result src = Inr events"
    and run: "sync_calendar e src w = (err, w')"
  shows "\<exists>L new extra. state_file w = Json (JObj L) \<and> sink_log w' = sink_log w @ new \<and>
           (\<forall>(r, res) \<in> set new. event_id r \<notin> fst ` set L) \<and>
           map fst extra = successes new \<and> distinct (successes new) \<and>
           state_file w' = (if err = None then Json (JObj (L @ extra)) else state_file w)"
proof -
  obtain L w4 where L: "state_file w = Json (JObj L)"
    and entry: "api_loop_entry e src w = (L, w4)"
    and w4: "state_file w4 = state_file w" "sink_log w4 = sink_log w"
    using api_loop_entry_retained [OF ret] by blast
  obtain err' synced k w5 where loop:
    "api_loop e (dateutil_parse src) events (L, 0, w4) = (err', synced, k, w5)"
    using prod_cases4 by blast
  have gr: "grows (L, 0, w4) (synced, k, w5)"
    using api_loop_grows [of "(L, 0, w4)" e "dateutil_parse src" events] loop by simp
  have g0: "state_file w5 = state_file w4"
    using grows_unfold [OF gr] by (rule conjunct1)
  have "\<exists>new extra. sink_log w5 = sink_log w4 @ new \<and> synced = L @ extra \<and>
          map fst extra = successes new \<and> distinct (successes new) \<and>
          (\<forall>(r, res) \<in> set new. event_id r \<notin> fst ` set L)"
    using grows_unfold [OF gr] by (rule conjunct2)
  then obtain new where "\<exists>extra. sink_log w5 = sink_log w4 @ new \<and> synced = L @ extra \<and>
          map fst extra = successes new \<and> distinct (successes new) \<and>
          (\<forall>(r, res) \<in> set new. event_id r \<notin> fst ` set L)" ..
  then obtain extra where gc: "sink_log w5 = sink_log w4 @ new \<and> synced = L @ extra \<and>
          map fst extra = successes new \<and> distinct (successes new) \<and>
          (\<forall>(r, res) \<in> set new. event_id r \<notin> fst ` set L)" ..
  have res: "(err, w') = (case err' of
              Some x \<Rightarrow> (Some x, w5)
            | None \<Rightarrow> (None, log e (''(ok) Sync complete. Created '' @ str_nat k @
                                     '' new reminders.'') (save_synced_events synced w5)))"
    using api_run [OF src entry loop] run by simp
  have fin: "state_file w = Json (JObj L) \<and> sink_log w' = sink_log w @ new \<and>
         (\<forall>(r, res) \<in> set new. event_id r \<notin> fst ` set L) \<and>
         map fst extra = successes new \<and> distinct (successes new) \<and>
         state_file w' = (if err = None then Json (JObj (L @ extra)) else state_file w)"
  proof (cases err')
    case None
    then have "err = None" "w' = log e (''(ok) Sync complete. Created '' @ str_nat k @
                                     '' new reminders.'') (save_synced_events synced w5)"
      using res by simp_all
    then show ?thesis using g0 gc w4 L by simp
  next
    case (Some x)
    then have "err = Some x" "w' = w5"
      using res by simp_all
    then show ?thesis using g0 gc w4 L by simp
  qed
  show ?thesis
    by (rule exI [where x = L], rule exI [where x = new], rule exI [where x = extra])
       (rule fin)
qed

lemma load_retained_eq:
  assumes "retained e (ticks w) w" "state_file w = Json (JObj L)"
  shows "load_synced_events e w = (L, w\<lparr>ticks := Suc (ticks w)\<rparr>)"
  using load_retained [OF assms(1)] assms(2) by auto

lemma load_absent: "state_file w = Absent \<Longrightarrow> load_synced_events e w = ([], w)"
  by (simp add: load_synced_events_def)

lemma ical_loop_entry_absent:
  assumes "state_file w = Absent"
  shows "ical_loop_entry e content w =
           ([], local_clock e (ticks w + 3),
            w\<lparr>ticks := ticks w + 4,
              log_lines := log_lines w @
                [(local_clock e (ticks w), ''(sync) Starting calendar sync (iCal)...''),
                 (local_clock e (ticks w + 1), ''(fetch) Fetching calendar...''),
                 (local_clock e (ticks w + 2),
                  ''(cal) Found '' @ str_nat (length (parse_ical content)) @
                  '' events in calendar'')],
              ensure_calls := Suc (ensure_calls w)\<rparr>)"
proof -
  define w3 where "w3 = ensure_reminder_list_exists
               (log e ''(fetch) Fetching calendar...''
                  (log e ''(sync) Starting calendar sync (iCal)...'' w))"
  have "state_file w3 = Absent"
    using assms by (simp add: w3_def ensure_reminder_list_exists_def)
  then have load: "load_synced_events e w3 = ([], w3)"
    by (rule load_absent)
  show ?thesis
    unfolding ical_loop_entry_def w3_def [symmetric] Let_def load prod.case
    by (simp add: w3_def ensure_reminder_list_exists_def log_def datetime_now_def
          eval_nat_numeral)
qed

lemma ical_loop_entry_loaded:
  assumes "retained e (ticks w + 2) w" "state_file w = Json (JObj L)"
  shows "ical_loop_entry e content w =
           (L, local_clock e (ticks w + 4),
            w\<lparr>ticks := ticks w + 5,
              log_lines := log_lines w @
                [(local_clock e (ticks w), ''(sync) Starting calendar sync (iCal)...''),
                 (local_clock e (ticks w + 1), ''(fetch) Fetching calendar...''),
                 (local_clock e (ticks w + 3),
                  ''(cal) Found '' @ str_nat (length (parse_ical content)) @
                  '' events in calendar'')],
              ensure_calls := Suc (ensure_calls w)\<rparr>)"
proof -
  define w3 where "w3 = ensure_reminder_list_exists
               (log e ''(fetch) Fetching calendar...''
                  (log e ''(sync) Starting calendar sync (iCal)...'' w))"
  have w3: "state_file w3 = Json (JObj L)" "ticks w3 = ticks w + 2"
    using assms(2) by (simp_all add: w3_def ensure_reminder_list_exists_def)
  have "retained e (ticks w3) w3"
    using assms w3 by (simp add: retained_def)
  then have load: "load_synced_events e w3 = (L, w3\<lparr>ticks := Suc (ticks w3)\<rparr>)"
    using w3(1) by (rule load_retained_eq)
  show ?thesis
    unfolding ical_loop_entry_def w3_def [symmetric] Let_def load prod.case
    by (simp add: w3_def ensure_reminder_list_exists_def log_def datetime_now_def
          eval_nat_numeral)
qed

lemma api_loop_entry_absent:
  assumes "state_file w = Absent"
  shows "api_loop_entry e src w =
           ([], w\<lparr>ticks := ticks w + 2,
                  log_lines := log_lines w @
                    [(local_clock e (ticks w), ''(sync) Starting calendar sync...'')],
                  ensure_calls := Suc (ensure_calls w)\<rparr>)"
proof -
  define w2 where "w2 = ensure_reminder_list_exists (log e ''(sync) Starting calendar sync...'' w)"
  have "state_file w2 = Absent"
    using assms by (simp add: w2_def ensure_reminder_list_exists_def)
  then have load: "load_synced_events e w2 = ([], w2)"
    by (rule load_absent)
  show ?thesis
    unfolding api_loop_entry_def w2_def [symmetric] Let_def load prod.case
    by (simp add: w2_def ensure_reminder_list_exists_def log_def datetime_now_def
          get_upcoming_events_def eval_nat_numeral)
qed

lemma api_loop_entry_loaded:
  assumes "retained e (ticks w + 1) w" "state_file w = Json (JObj L)"
  shows "api_loop_entry e src w =
           (L, w\<lparr>ticks := ticks w + 3,
                 log_lines := log_lines w @
                   [(local_clock e (ticks w), ''(sync) Starting calendar sync...'')],
                 ensure_calls := Suc (ensure_calls w)\<rparr>)"
proof -
  define w2 where "w2 = ensure_reminder_list_exists (log e ''(sync) Starting calendar sync...'' w)"
  have w2: "state_file w2 = Json (JObj L)" "ticks w2 = ticks w + 1"
    using assms(2) by (simp_all add: w2_def ensure_reminder_list_exists_def)
  have "retained e (ticks w2) w2"
    using assms w2 by (simp add: retained_def)
  then have load: "load_synced_events e w2 = (L, w2\<lparr>ticks := Suc (ticks w2)\<rparr>)"
    using w2(1) by (rule load_retained_eq)
  show ?thesis
    unfolding api_loop_entry_def w2_def [symmetric] Let_def load prod.case
    by (simp add: w2_def ensure_reminder_list_exists_def log_def datetime_now_def
          get_upcoming_events_def eval_nat_numeral)
qed

lemma retained_rows:
  assumes "state_file w = Json (JObj (map row_entry rows))"
    and "plus_minutes (local_clock e k) (- (2 * 24 * 60)) = Some c"
    and "valid_datetime (local_clock e k)" "tzinfo (local_clock e k) = None"
    and "\<forall>(i, summary, start_time, t) \<in> set rows.
           valid_datetime t \<and> tzinfo t = None \<and> dt_less c t"
  shows "retained e k w"
proof -
  have vc: "valid_datetime c" "tzinfo c = None"
    using plus_minutes_valid [OF assms(3,2)] assms(4) by simp_all
  have "filter (\<lambda>(i, summary, start_time, t). isoformat c < isoformat t) rows = rows"
    using assms(5) by (intro filter_True) (auto simp: isoformat_less [OF vc(1) _ vc(2)])
  then show ?thesis
    using assms(1,2) by (simp add: retained_def entries_newer_rows)
qed

section \<open>The organizer line (C10)\<close>



section \<open>A reminder time that has passed (C4)\<close>

text \<open>
  C4. In both variants, an event whose reminder time (the start minus
  \<open>REMINDER_MINUTES_BEFORE\<close>) is strictly before the clock reading it is compared
  with gets no reminder: the Reminders application is not called and the ledger
  is left as it is, whether or not the start itself is still ahead.
\<close>

theorem fire_time_passed_no_reminder:
  "(api_start_time parse event = Some start_time \<longrightarrow>
    plus_minutes start_time (- REMINDER_MINUTES_BEFORE) = Some remind_time \<longrightarrow>
    now_for e start_time w = (Some now, w1) \<longrightarrow>
    dt_less remind_time now \<longrightarrow>
      sink_log (world_of (api_step e parse event (synced, n, w))) = sink_log w \<and>
      ledger_of (api_step e parse event (synced, n, w)) = synced) \<and>
   (parse_ical_datetime (get_default ievent ''DTSTART'' []) = Some istart \<longrightarrow>
    plus_minutes istart (- REMINDER_MINUTES_BEFORE) = Some iremind \<longrightarrow>
    dt_less iremind inow \<longrightarrow>
      ical_step e inow cutoff ievent (synced, n, w) = (None, synced, n, w))"
  by (auto simp: api_step_def ical_step_def ledger_of_def world_of_def Let_def
           dest: now_for_sink_log split: option.splits prod.splits)

theorem fire_time_passed_no_reminder_witness:
  "\<not> dt_less (jan1 10 2) (jan1 10 0) \<and>
   sink_log (world_of (api_step (env_of (always ''created'')) parse_table
                        (timed_event ''E4'' ''2025-01-01T10:02:00'') ([], 0, fresh_world))) = [] \<and>
   ledger_of (api_step (env_of (always ''created'')) parse_table
                (timed_event ''E4'' ''2025-01-01T10:02:00'') ([], 0, fresh_world)) = [] \<and>
   ical_step (env_of (always ''created'')) (jan1 10 0) ((jan1 10 0)\<lparr>day := 2\<rparr>)
     [(''UID'', ''E4''), (''DTSTART'', ''20250101T100200'')] ([], 0, fresh_world)
     = (None, [], 0, fresh_world)"
proof -
  have future: "\<not> dt_less (jan1 10 2) (jan1 10 0)"
    by code_simp
  have h1: "api_start_time parse_table (timed_event ''E4'' ''2025-01-01T10:02:00'') = Some (jan1 10 2)"
    by code_simp
  have h2: "plus_minutes (jan1 10 2) (- REMINDER_MINUTES_BEFORE) = Some (jan1 9 59)"
    by code_simp
  have h3: "now_for (env_of (always ''created'')) (jan1 10 2) fresh_world
              = (Some (jan1 10 0), fresh_world\<lparr>ticks := 1\<rparr>)"
    by code_simp
  have h4: "dt_less (jan1 9 59) (jan1 10 0)"
    by code_simp
  have h5: "parse_ical_datetime (get_default [(''UID'', ''E4''), (''DTSTART'', ''20250101T100200'')]
                                   ''DTSTART'' []) = Some (jan1 10 2)"
    by code_simp
  have empty: "sink_log fresh_world = []"
    by (simp add: fresh_world_def)
  show ?thesis
    using fire_time_passed_no_reminder
            [of parse_table "timed_event ''E4'' ''2025-01-01T10:02:00''" "jan1 10 2" "jan1 9 59"
                "env_of (always ''created'')" fresh_world "jan1 10 0" "fresh_world\<lparr>ticks := 1\<rparr>"
                "[]" 0 "[(''UID'', ''E4''), (''DTSTART'', ''20250101T100200'')]" "jan1 10 2"
                "jan1 9 59" "jan1 10 0" "(jan1 10 0)\<lparr>day := 2\<rparr>"]
          future h1 h2 h3 h4 h5 empty
    by simp
qed

section \<open>The answer of the Reminders application and the ledger (C3)\<close>




section \<open>Cancelled and all-day events (C1)\<close>

text \<open>
  C1. The feed variant never reads the \<open>STATUS\<close> of an event. For the feed whose
  only event is timed, starts four hours ahead and carries \<open>STATUS:CANCELLED\<close>, the
  pass calls the Reminders application for that event and records it in the
  ledger. (The API variant skips a cancelled event, and both variants skip an
  all-day event: \<open>api_untimed_or_cancelled_skipped\<close>, \<open>ical_all_day_skipped\<close>.)
\<close>

theorem cancelled_feed_event_gets_reminder:
  "map_of (hd (parse_ical cancelled_feed)) ''STATUS'' = Some ''CANCELLED'' \<and>
   fst (sync_calendar_ical (env_of (always ''created'')) (Inr cancelled_feed) fresh_world) = None \<and>
   sink_log (snd (sync_calendar_ical (env_of (always ''created'')) (Inr cancelled_feed) fresh_world))
     = [(\<lparr>event_id = ''E1'', title = ''(U+1F4C5) Standup - 14:00'', body = ''Starts at 14:00'',
          remind_date = jan1 13 57\<rparr>, ''created'')] \<and>
   state_file (snd (sync_calendar_ical (env_of (always ''created'')) (Inr cancelled_feed) fresh_world))
     = Json (JObj [(''E1'', ledger_entry ''Standup'' (jan1 14 0) (clock_10am 5))])"
proof -
  let ?e = "env_of (always ''created'')"
  let ?w6 = "\<lparr>ticks = 4, state_file = Absent,
               log_lines = logged [(0, ''(sync) Starting calendar sync (iCal)...''),
                                   (1, ''(fetch) Fetching calendar...''),
                                   (2, ''(cal) Found 1 events in calendar'')],
               ensure_calls = 1, sink_log = []\<rparr>"
  let ?w7 = "\<lparr>ticks = 6, state_file = Absent,
               log_lines = logged [(0, ''(sync) Starting calendar sync (iCal)...''),
                                   (1, ''(fetch) Fetching calendar...''),
                                   (2, ''(cal) Found 1 events in calendar''),
                                   (4, ''(ok) Created reminder: Standup at 14:00'')],
               ensure_calls = 1,
               sink_log = [(\<lparr>event_id = ''E1'', title = ''(U+1F4C5) Standup - 14:00'',
                              body = ''Starts at 14:00'', remind_date = jan1 13 57\<rparr>,
                            ''created'')]\<rparr>"
  have parsed: "parse_ical cancelled_feed = [cancelled_event]"
    by code_simp
  have status: "map_of cancelled_event ''STATUS'' = Some ''CANCELLED''"
    by code_simp
  have entry: "ical_loop_entry ?e cancelled_feed fresh_world = ([], clock_10am 3, ?w6)"
    by code_simp
  have cutoff: "plus_minutes (clock_10am 3) (SYNC_HOURS_AHEAD * 60)
                  = Some ((clock_10am 3)\<lparr>day := 2\<rparr>)"
    by code_simp
  have step: "ical_step ?e (clock_10am 3) ((clock_10am 3)\<lparr>day := 2\<rparr>) cancelled_event ([], 0, ?w6)
                = (None, [(''E1'', ledger_entry ''Standup'' (jan1 14 0) (clock_10am 5))], 1, ?w7)"
    by code_simp
  have loop: "ical_loop ?e (clock_10am 3) ((clock_10am 3)\<lparr>day := 2\<rparr>)
                (parse_ical cancelled_feed) ([], 0, ?w6)
                = (None, [(''E1'', ledger_entry ''Standup'' (jan1 14 0) (clock_10am 5))], 1, ?w7)"
    unfolding parsed ical_loop.simps step by simp
  show ?thesis
    using ical_run [OF entry cutoff loop] parsed status by simp
qed



section \<open>The UTC indicator (C2)\<close>

text \<open>
  C2. \<open>parse_ical_datetime\<close> removes the \<open>Z\<close> and returns the same naive value as
  for the text without it; the pass compares that value with the local clock. With
  a clock at 10:00 in a zone two hours east of UTC, an event at 09:00 UTC, that is at
  11:00 local time and with its reminder time (10:57) still ahead, is taken to have
  started an hour ago: the pass ends normally without calling the Reminders
  application.
\<close>

theorem utc_start_read_as_local:
  "parse_ical_datetime ''20250101T090000Z'' = Some (jan1 9 0) \<and>
   parse_ical_datetime ''20250101T090000'' = Some (jan1 9 0) \<and>
   plus_minutes (jan1 9 0) (local_utcoffset (env_of (always ''created''))) = Some (jan1 11 0) \<and>
   plus_minutes (jan1 11 0) (- REMINDER_MINUTES_BEFORE) = Some (jan1 10 57) \<and>
   \<not> dt_less (jan1 10 57) (clock_10am 3) \<and>
   fst (sync_calendar_ical (env_of (always ''created'')) (Inr utc_feed) fresh_world) = None \<and>
   sink_log (snd (sync_calendar_ical (env_of (always ''created'')) (Inr utc_feed) fresh_world)) = []"
proof -
  let ?e = "env_of (always ''created'')"
  let ?w6 = "\<lparr>ticks = 4, state_file = Absent,
               log_lines = logged [(0, ''(sync) Starting calendar sync (iCal)...''),
                                   (1, ''(fetch) Fetching calendar...''),
                                   (2, ''(cal) Found 1 events in calendar'')],
               ensure_calls = 1, sink_log = []\<rparr>"
  have p1: "parse_ical_datetime ''20250101T090000Z'' = Some (jan1 9 0)"
    by code_simp
  have p2: "parse_ical_datetime ''20250101T090000'' = Some (jan1 9 0)"
    by code_simp
  have p3: "plus_minutes (jan1 9 0) (local_utcoffset ?e) = Some (jan1 11 0)"
    by code_simp
  have p4: "plus_minutes (jan1 11 0) (- REMINDER_MINUTES_BEFORE) = Some (jan1 10 57)"
    by code_simp
  have p5: "\<not> dt_less (jan1 10 57) (clock_10am 3)"
    by code_simp
  have parsed: "parse_ical utc_feed = [utc_event]"
    by code_simp
  have entry: "ical_loop_entry ?e utc_feed fresh_world = ([], clock_10am 3, ?w6)"
    by code_simp
  have cutoff: "plus_minutes (clock_10am 3) (SYNC_HOURS_AHEAD * 60)
                  = Some ((clock_10am 3)\<lparr>day := 2\<rparr>)"
    by code_simp
  have step: "ical_step ?e (clock_10am 3) ((clock_10am 3)\<lparr>day := 2\<rparr>) utc_event ([], 0, ?w6)
                = (None, [], 0, ?w6)"
    by code_simp
  have loop: "ical_loop ?e (clock_10am 3) ((clock_10am 3)\<lparr>day := 2\<rparr>)
                (parse_ical utc_feed) ([], 0, ?w6) = (None, [], 0, ?w6)"
    unfolding parsed ical_loop.simps step by simp
  show ?thesis
    using ical_run [OF entry cutoff loop] p1 p2 p3 p4 p5 by simp
qed


section \<open>A fetch that fails (C5)\<close>

text \<open>
  C5. In the API variant the query for the events is outside the \<open>try\<close>. When it
  raises, the pass has logged only its start, has set up the reminder list and has
  read the ledger; the exception leaves \<open>sync_calendar\<close> and no failure is logged.
  The state file stays as it was. The feed variant, on the same failure, logs it
  and returns before the setup and the load.
  (\<open>fetch_failure_keeps_state_file\<close>: in every failing run of either variant the
  state file and the calls to the Reminders application are unchanged.)
\<close>

theorem list_failure_is_not_logged:
  "sync_calendar (env_of (always ''created'')) failing_list world_with_ledger
     = (Some (FetchError ''timed out''),
        world_with_ledger\<lparr>ticks := 3,
                           log_lines := logged [(0, ''(sync) Starting calendar sync...'')],
                           ensure_calls := 1\<rparr>) \<and>
   sync_calendar_ical (env_of (always ''created'')) (Inl ''timed out'') world_with_ledger
     = (None,
        world_with_ledger\<lparr>ticks := 3,
                           log_lines := logged [(0, ''(sync) Starting calendar sync (iCal)...''),
                                                (1, ''(fetch) Fetching calendar...''),
                                                (2, ''(x) Failed to fetch calendar: timed out'')]\<rparr>)"
proof -
  have a: "sync_calendar (env_of (always ''created'')) failing_list world_with_ledger
     = (Some (FetchError ''timed out''),
        world_with_ledger\<lparr>ticks := 3,
                           log_lines := logged [(0, ''(sync) Starting calendar sync...'')],
                           ensure_calls := 1\<rparr>)"
    by code_simp
  have b: "sync_calendar_ical (env_of (always ''created'')) (Inl ''timed out'') world_with_ledger
     = (None,
        world_with_ledger\<lparr>ticks := 3,
                           log_lines := logged [(0, ''(sync) Starting calendar sync (iCal)...''),
                                                (1, ''(fetch) Fetching calendar...''),
                                                (2, ''(x) Failed to fetch calendar: timed out'')]\<rparr>)"
    by code_simp
  show ?thesis using a b by simp
qed

section \<open>What the link scan returns (C6)\<close>

text \<open>
  C6, as stated, fails: in the API variant the description
  \<open>Slides: https://evil.example/zoom.us/j/1 (draft)\<close> yields the link
  \<open>https://evil.example/zoom.us/j/1\<close>, and in the feed variant the text
  \<open>Agenda https://evil.example/?next=meet.google.com today\<close> yields
  \<open>https://evil.example/?next=meet.google.com\<close>; the host of both is
  \<open>evil.example\<close>, which is no provider host.
\<close>

theorem link_scan_counterexample:
  "extract_meeting_link api_link_event = Some ''https://evil.example/zoom.us/j/1'' \<and>
   provider_url ''Agenda https://evil.example/?next=meet.google.com today''
     = Some ''https://evil.example/?next=meet.google.com'' \<and>
   url_host ''https://evil.example/zoom.us/j/1'' = ''evil.example'' \<and>
   url_host ''https://evil.example/?next=meet.google.com'' = ''evil.example'' \<and>
   \<not> provider_host ''evil.example''"
proof -
  have "extract_meeting_link api_link_event = Some ''https://evil.example/zoom.us/j/1''"
    by code_simp
  moreover have "provider_url ''Agenda https://evil.example/?next=meet.google.com today''
                   = Some ''https://evil.example/?next=meet.google.com''"
    by code_simp
  moreover have "url_host ''https://evil.example/zoom.us/j/1'' = ''evil.example''"
    by code_simp
  moreover have "url_host ''https://evil.example/?next=meet.google.com'' = ''evil.example''"
    by code_simp
  moreover have "\<not> provider_host ''evil.example''"
    by code_simp
  ultimately show ?thesis by blast
qed

text \<open>
  C6, amended. What the scan returns is a piece of the scanned text that contains a
  provider domain. In the API variant it is \<open>https://\<close>, any characters but
  whitespace, \<open>zoom.us/\<close> and a non-empty rest, or it starts with
  \<open>https://meet.google.com/\<close> or \<open>https://teams.microsoft.com/\<close>, followed by a
  non-empty rest, and then its host is that provider's; the rest holds no
  whitespace, \<open><\<close> or quote. In the feed variant it is \<open>https://\<close> followed by a
  non-empty run without whitespace, \<open><\<close>, \<open>>\<close>, quote or backslash, and one of the
  three domains occurs somewhere in it.
\<close>

theorem link_scan_returns_url_containing_domain:
  "(first_match patterns d = Some u \<longrightarrow>
      (\<exists>pre post. d = pre @ u @ post) \<and>
      ((\<exists>a b. u = ''https://'' @ a @ ''zoom.us/'' @ b \<and> (\<forall>c \<in> set a. \<not> is_space c) \<and>
              b \<noteq> [] \<and> (\<forall>c \<in> set b. \<not> link_stop c)) \<or>
       (\<exists>b. u = ''https://meet.google.com/'' @ b \<and> b \<noteq> [] \<and> (\<forall>c \<in> set b. \<not> link_stop c) \<and>
            url_host u = ''meet.google.com'') \<or>
       (\<exists>b. u = ''https://teams.microsoft.com/'' @ b \<and> b \<noteq> [] \<and> (\<forall>c \<in> set b. \<not> link_stop c) \<and>
            url_host u = ''teams.microsoft.com''))) \<and>
   (provider_url text = Some v \<longrightarrow>
      (\<exists>pre post. text = pre @ v @ post) \<and>
      (\<exists>b. v = ''https://'' @ b \<and> b \<noteq> [] \<and> (\<forall>c \<in> set b. \<not> url_stop c)) \<and>
      (py_in ''zoom.us'' v \<or> py_in ''meet.google.com'' v \<or> py_in ''teams.microsoft.com'' v))"
proof (intro conjI impI)
  assume fm: "first_match patterns d = Some u"
  consider (zoom) "rx_search zoom_pattern d = Some u"
    | (meet) "rx_search meet_pattern d = Some u"
    | (teams) "rx_search teams_pattern d = Some u"
    using fm by (auto simp: patterns_def split: option.splits)
  then have shape:
    "(\<exists>pre post. d = pre @ u @ post) \<and>
      ((\<exists>a b. u = ''https://'' @ a @ ''zoom.us/'' @ b \<and> (\<forall>c \<in> set a. \<not> is_space c) \<and>
              b \<noteq> [] \<and> (\<forall>c \<in> set b. \<not> link_stop c)) \<or>
       (\<exists>b. u = ''https://meet.google.com/'' @ b \<and> b \<noteq> [] \<and> (\<forall>c \<in> set b. \<not> link_stop c) \<and>
            url_host u = ''meet.google.com'') \<or>
       (\<exists>b. u = ''https://teams.microsoft.com/'' @ b \<and> b \<noteq> [] \<and> (\<forall>c \<in> set b. \<not> link_stop c) \<and>
            url_host u = ''teams.microsoft.com''))"
  proof cases
    case zoom
    then show ?thesis using zoom_pattern_shape by blast
  next
    case meet
    then obtain b where "\<exists>pre post. d = pre @ u @ post"
      "u = ''https://meet.google.com/'' @ b" "b \<noteq> []" "\<forall>c \<in> set b. \<not> link_stop c"
      using fixed_host_pattern_shape unfolding meet_pattern_def by blast
    moreover from this have "url_host u = ''meet.google.com''"
      by (simp add: url_host_def)
    ultimately show ?thesis by blast
  next
    case teams
    then obtain b where "\<exists>pre post. d = pre @ u @ post"
      "u = ''https://teams.microsoft.com/'' @ b" "b \<noteq> []" "\<forall>c \<in> set b. \<not> link_stop c"
      using fixed_host_pattern_shape unfolding teams_pattern_def by blast
    moreover from this have "url_host u = ''teams.microsoft.com''"
      by (simp add: url_host_def)
    ultimately show ?thesis by blast
  qed
  show "\<exists>pre post. d = pre @ u @ post" using shape by blast
  show "(\<exists>a b. u = ''https://'' @ a @ ''zoom.us/'' @ b \<and> (\<forall>c \<in> set a. \<not> is_space c) \<and>
              b \<noteq> [] \<and> (\<forall>c \<in> set b. \<not> link_stop c)) \<or>
       (\<exists>b. u = ''https://meet.google.com/'' @ b \<and> b \<noteq> [] \<and> (\<forall>c \<in> set b. \<not> link_stop c) \<and>
            url_host u = ''meet.google.com'') \<or>
       (\<exists>b. u = ''https://teams.microsoft.com/'' @ b \<and> b \<noteq> [] \<and> (\<forall>c \<in> set b. \<not> link_stop c) \<and>
            url_host u = ''teams.microsoft.com'')"
    using shape by blast
next
  assume pu: "provider_url text = Some v"
  then have mem: "v \<in> set (rx_findall url_pattern text)"
    and dom: "list_ex (\<lambda>domain. py_in domain v) DOMAINS"
    unfolding provider_url_def by (auto simp: find_Some_iff)
  show "\<exists>pre post. text = pre @ v @ post" using url_pattern_shape [OF mem] by blast
  show "\<exists>b. v = ''https://'' @ b \<and> b \<noteq> [] \<and> (\<forall>c \<in> set b. \<not> url_stop c)"
    using url_pattern_shape [OF mem] by blast
  show "py_in ''zoom.us'' v \<or> py_in ''meet.google.com'' v \<or> py_in ''teams.microsoft.com'' v"
    using dom by (simp add: DOMAINS_def)
qed


theorem link_scan_returns_url_containing_domain_witness:
  "first_match patterns ''Join https://us02web.zoom.us/j/123?pwd=abc now''
     = Some ''https://us02web.zoom.us/j/123?pwd=abc'' \<and>
   provider_url ''Room 4, https://meet.google.com/abc-defg-hij'' = Some ''https://meet.google.com/abc-defg-hij'' \<and>
   (\<exists>pre post. ''Join https://us02web.zoom.us/j/123?pwd=abc now''
                  = pre @ ''https://us02web.zoom.us/j/123?pwd=abc'' @ post) \<and>
   (\<exists>pre post. ''Room 4, https://meet.google.com/abc-defg-hij''
                  = pre @ ''https://meet.google.com/abc-defg-hij'' @ post)"
proof -
  have a: "first_match patterns ''Join https://us02web.zoom.us/j/123?pwd=abc now''
             = Some ''https://us02web.zoom.us/j/123?pwd=abc''"
    by code_simp
  have b: "provider_url ''Room 4, https://meet.google.com/abc-defg-hij''
             = Some ''https://meet.google.com/abc-defg-hij''"
    by code_simp
  show ?thesis
    using link_scan_returns_url_containing_domain
            [of "''Join https://us02web.zoom.us/j/123?pwd=abc now''"
                "''https://us02web.zoom.us/j/123?pwd=abc''"
                "''Room 4, https://meet.google.com/abc-defg-hij''"
                "''https://meet.google.com/abc-defg-hij''"]
          a b
    by blast
qed

section \<open>Escapes in the text fields (C7)\<close>




section \<open>The retention window (C8)\<close>

text \<open>
  C8. Take a state file that holds what the program writes: for each event id a
  summary, a start time and the clock reading at which it was synced. Loading it
  at the clock reading \<open>now\<close> keeps, in their order, exactly the entries synced
  strictly after the cutoff, and drops the others; the cutoff is \<open>now\<close> with the date
  moved two days back. Loading leaves the state file as it is, and saving stores
  the ledger it is given, whole. (The comparison is the one of the code, on the
  ISO texts; \<open>isoformat_less\<close> shows that it agrees with the order of the dates.)
\<close>

theorem load_keeps_exactly_the_recent_entries:
  assumes "state_file w = Json (JObj (map row_entry rows))"
    and "\<forall>(k, summary, start_time, t) \<in> set rows. valid_datetime t \<and> tzinfo t = None"
    and "valid_datetime (local_clock e (ticks w))" and "tzinfo (local_clock e (ticks w)) = None"
    and "plus_minutes (local_clock e (ticks w)) (- (2 * 24 * 60)) = Some cutoff"
  shows "fst (load_synced_events e w) =
           map row_entry (filter (\<lambda>(k, summary, start_time, t). dt_less cutoff t) rows) \<and>
         shift_days (- 2) (year (local_clock e (ticks w)), month (local_clock e (ticks w)),
                           day (local_clock e (ticks w)))
           = Some (year cutoff, month cutoff, day cutoff) \<and>
         [hour cutoff, minute cutoff, second cutoff, microsecond cutoff]
           = [hour (local_clock e (ticks w)), minute (local_clock e (ticks w)),
              second (local_clock e (ticks w)), microsecond (local_clock e (ticks w))] \<and>
         state_file (snd (load_synced_events e w)) = state_file w \<and>
         state_file (save_synced_events synced w') = Json (JObj synced)"
proof -
  let ?now = "local_clock e (ticks w)"
  have vc: "valid_datetime cutoff" "tzinfo cutoff = None"
    using plus_minutes_valid [OF assms(3,5)] assms(4) by simp_all
  have same: "filter (\<lambda>(k, summary, start_time, t). isoformat cutoff < isoformat t) rows =
              filter (\<lambda>(k, summary, start_time, t). dt_less cutoff t) rows"
    using assms(2) by (intro filter_cong) (auto simp: isoformat_less [OF vc(1) _ vc(2)])
  have "fst (load_synced_events e w) =
          map row_entry (filter (\<lambda>(k, summary, start_time, t). isoformat cutoff < isoformat t) rows)"
    using assms(1,5)
    by (simp add: load_synced_events_def datetime_now_def entries_newer_rows)
  moreover have "hour ?now < 24" "minute ?now < 60"
    using assms(3) by (simp_all add: valid_datetime_def)
  ultimately show ?thesis
    using same two_days_back [OF _ _ assms(5)]
    by (simp add: load_fields save_synced_events_def)
qed


theorem load_keeps_exactly_the_recent_entries_witness:
  "fst (load_synced_events (env_of (always ''created'')) world_two_entries) = [row_entry recent_row]"
proof -
  let ?now = "local_clock (env_of (always ''created'')) (ticks world_two_entries)"
  have stored: "state_file world_two_entries = Json (JObj (map row_entry [old_row, recent_row]))"
    by (simp add: world_two_entries_def fresh_world_def)
  have rows: "\<forall>(k, summary, start_time, t) \<in> set [old_row, recent_row].
                valid_datetime t \<and> tzinfo t = None"
    by (simp add: old_row_def recent_row_def jan1_def valid_datetime_def valid_date_def
          days_in_month_def)
  have now: "valid_datetime ?now"
    by (simp add: env_of_def world_two_entries_def fresh_world_def clock_10am_def jan1_def
          valid_datetime_def valid_date_def days_in_month_def)
  have naive: "tzinfo ?now = None"
    by (simp add: env_of_def clock_10am_def jan1_def)
  have cut: "plus_minutes ?now (- (2 * 24 * 60))
               = Some ((jan1 10 0)\<lparr>year := 2024, month := 12, day := 30\<rparr>)"
    by (simp add: env_of_def world_two_entries_def fresh_world_def clock_10am_def jan1_def
          plus_minutes_def shift_days_def prev_day_def days_in_month_def numeral_2_eq_2)
  have kept: "filter (\<lambda>(k, summary, start_time, t).
                 dt_less ((jan1 10 0)\<lparr>year := 2024, month := 12, day := 30\<rparr>) t)
                [old_row, recent_row] = [recent_row]"
    by (simp add: old_row_def recent_row_def jan1_def dt_less_def dt_key_def)
  show ?thesis
    using load_keeps_exactly_the_recent_entries [OF stored rows now naive cut] kept by simp
qed

end
